theory Spec2Isabelle
  imports Main
begin

section \<open>JavaScript strings\<close>

text \<open>
  A JavaScript string is modelled as a HOL \<open>string\<close>; each \<open>char\<close> stands for one
  code unit in the range U+0000 .. U+00FF. Code units above U+00FF are outside the model.
\<close>

definition code :: "char \<Rightarrow> int" where
  "code c = of_char c"

text \<open>\<open>\d\<close> of a regular expression without the unicode flag: the ASCII digits.\<close>

definition isDigit :: "char \<Rightarrow> bool" where
  "isDigit c = (48 \<le> code c \<and> code c \<le> 57)"

text \<open>
  White space and line terminators as \<open>String.prototype.trim\<close> removes them, on the
  modelled range: TAB, LF, VT, FF, CR, SPACE and NO-BREAK SPACE.
\<close>

definition isWhiteSpace :: "char \<Rightarrow> bool" where
  "isWhiteSpace c = (code c \<in> {9, 10, 11, 12, 13, 32, 160})"

definition trim :: "string \<Rightarrow> string" where
  "trim s = rev (dropWhile isWhiteSpace (rev (dropWhile isWhiteSpace s)))"

text \<open>
  \<open>String.prototype.toLowerCase\<close> on the modelled range: A-Z, and the Latin-1 capitals
  U+00C0 .. U+00DE without the multiplication sign U+00D7, move up by 32.
\<close>

definition lowerChar :: "char \<Rightarrow> char" where
  "lowerChar c =
     (if (65 \<le> code c \<and> code c \<le> 90) \<or> (192 \<le> code c \<and> code c \<le> 222 \<and> code c \<noteq> 215)
      then char_of (code c + 32) else c)"

definition toLowerCase :: "string \<Rightarrow> string" where
  "toLowerCase s = map lowerChar s"

text \<open>\<open>s.indexOf(p) === 0\<close>: the string \<open>s\<close> starts with \<open>p\<close>.\<close>

definition startsWith :: "string \<Rightarrow> string \<Rightarrow> bool" where
  "startsWith s p = (take (length p) s = p)"

text \<open>\<open>s.indexOf(c) === -1\<close> for a one-character string \<open>c\<close>.\<close>

definition lacks :: "string \<Rightarrow> char \<Rightarrow> bool" where
  "lacks s c = (c \<notin> set s)"

subsection \<open>Numbers to strings\<close>

text \<open>
  \<open>Number.prototype.toString(radix)\<close> on an integer: digits 0-9 and a-z, most
  significant first, a minus sign for a negative number. With radix 10 this is also
  what string concatenation does to an integer below \<open>10^21\<close> in magnitude.
\<close>

definition digitChar :: "int \<Rightarrow> char" where
  "digitChar d = (if d < 10 then char_of (48 + d) else char_of (87 + d))"

function digitsOf :: "int \<Rightarrow> int \<Rightarrow> string" where
  "digitsOf radix n =
     (if radix < 2 \<or> n < radix then [digitChar n]
      else digitsOf radix (n div radix) @ [digitChar (n mod radix)])"
  by pat_completeness auto
termination
proof (relation "measure (\<lambda>(radix, n). nat n)")
  show "wf (measure (\<lambda>(radix, n). nat n))" by simp
next
  fix radix n :: int
  assume "\<not> (radix < 2 \<or> n < radix)"
  then have "2 \<le> radix" and "radix \<le> n" by simp_all
  then have "n div radix < n" by (simp add: int_div_less_self)
  moreover have "0 < n" using \<open>2 \<le> radix\<close> \<open>radix \<le> n\<close> by simp
  ultimately show "((radix, n div radix), (radix, n)) \<in> measure (\<lambda>(radix, n). nat n)"
    by simp
qed

declare digitsOf.simps [simp del]

definition intToString :: "int \<Rightarrow> int \<Rightarrow> string" where
  "intToString radix i =
     (if i < 0 then CHR ''-'' # digitsOf radix (- i) else digitsOf radix i)"

section \<open>The stylesheet URL sanitizer\<close>

text \<open>
  The JavaScript values that reach the scripts from the DOM (\<open>.val()\<close>, \<open>.data()\<close>,
  a property of an element). Numbers are integers here; objects are outside the model.
\<close>

datatype jsval = JSUndefined | JSNull | JSBool bool | JSNumber int | JSString string

text \<open>
  The browser's \<open>URL\<close> constructor is not part of the script. It is a parameter of the
  model: \<open>None\<close> when \<open>typeof URL !== 'function'\<close>, otherwise the function that takes
  the trimmed string, resolves it against \<open>window.location.origin\<close> and yields the
  \<open>protocol\<close> of the parsed URL, or \<open>None\<close> when the constructor throws.
\<close>

type_synonym url_api = "(string \<Rightarrow> string option) option"

text \<open>The three scheme prefixes of lines 35-38, tested on the lower-cased trimmed string.\<close>

definition dangerousScheme :: "string \<Rightarrow> bool" where
  "dangerousScheme trimmed =
     (let lower = toLowerCase trimmed in
      startsWith lower ''javascript:'' \<or> startsWith lower ''data:'' \<or> startsWith lower ''vbscript:'')"

text \<open>The \<open>try\<close> block of lines 43-53: true when it returns \<open>null\<close>.\<close>

definition protocolRejected :: "url_api \<Rightarrow> string \<Rightarrow> bool" where
  "protocolRejected URL trimmed =
     (case URL of
        None \<Rightarrow> False
      | Some parse \<Rightarrow>
          (case parse trimmed of
             None \<Rightarrow> False
           | Some protocol \<Rightarrow>
               toLowerCase protocol \<noteq> ''http:'' \<and> toLowerCase protocol \<noteq> ''https:''))"

text \<open>
  The regular expression \<open>/([?&])ver=\d+(&?)/\<close> tried at the head of a string: the first
  group, whether the second group is non-empty, and what follows the match. \<open>\d+\<close> and
  \<open>&?\<close> are greedy and nothing follows them in the pattern, so there is no backtracking.
\<close>

definition verMatchHere :: "string \<Rightarrow> (char \<times> bool \<times> string) option" where
  "verMatchHere s =
     (case s of
        [] \<Rightarrow> None
      | c # cs \<Rightarrow>
          if (c = CHR ''?'' \<or> c = CHR ''&'') \<and> startsWith cs ''ver=''
             \<and> takeWhile isDigit (drop 4 cs) \<noteq> []
          then (let rest = dropWhile isDigit (drop 4 cs) in
                if startsWith rest ''&'' then Some (c, True, tl rest) else Some (c, False, rest))
          else None)"

text \<open>
  \<open>trimmed.replace(/([?&])ver=\d+(&?)/, function (match, p1, p2) { return p2 ? p1 : ''; })\<close>:
  the pattern has no \<open>g\<close> flag, so only the leftmost match is replaced.
\<close>

fun replaceVer :: "string \<Rightarrow> string" where
  "replaceVer [] = []"
| "replaceVer (c # cs) =
     (case verMatchHere (c # cs) of
        Some (p1, p2, rest) \<Rightarrow> (if p2 then [p1] else []) @ rest
      | None \<Rightarrow> c # replaceVer cs)"

text \<open>Lines 55-67 for the custom scheme; \<open>now\<close> is the value of \<open>Date.now()\<close>.\<close>

definition cacheBust :: "int \<Rightarrow> string \<Rightarrow> string" where
  "cacheBust now trimmed =
     (let newUrl = replaceVer trimmed in
      if lacks newUrl (CHR ''?'') then newUrl @ ''?ver='' @ intToString 10 now
      else newUrl @ ''&ver='' @ intToString 10 now)"

text \<open>
  \<open>sanitizeCssUrl(cssUrl, currentScheme, isSafe)\<close>, with \<open>None\<close> for \<open>null\<close>.
  \<open>isSafe\<close> is \<open>None\<close> when the argument is not a function; otherwise it is the
  validator, read through the truthiness of what it returns.
\<close>

definition sanitizeCssUrl ::
  "url_api \<Rightarrow> int \<Rightarrow> jsval \<Rightarrow> jsval \<Rightarrow> (string \<Rightarrow> bool) option \<Rightarrow> string option" where
  "sanitizeCssUrl URL now cssUrl currentScheme isSafe =
     (case cssUrl of
        JSString s \<Rightarrow>
          if s = [] then None
          else let trimmed = trim s in
            if trimmed = [] then None
            else if (case isSafe of None \<Rightarrow> False | Some f \<Rightarrow> \<not> f trimmed) then None
            else if dangerousScheme trimmed then None
            else if protocolRejected URL trimmed then None
            else if currentScheme = JSString ''publishpress-custom''
              then Some (cacheBust now trimmed)
              else Some trimmed
      | _ \<Rightarrow> None)"

text \<open>
  The \<open>ver=\<close> query parameters of a URL string, counted. The query starts after the
  first \<open>?\<close> and ends before the first \<open>#\<close>; its parameters are separated by \<open>&\<close>;
  a parameter counts when it begins with \<open>ver=\<close>. The flag tells whether the query has
  started.
\<close>

fun countVer :: "bool \<Rightarrow> string \<Rightarrow> nat" where
  "countVer inQuery [] = 0"
| "countVer inQuery (c # cs) =
     (if c = CHR ''#'' then 0
      else if (c = CHR ''?'' \<and> \<not> inQuery) \<or> (c = CHR ''&'' \<and> inQuery)
        then (if startsWith cs ''ver='' then 1 else 0) + countVer True cs
        else countVer inQuery cs)"

definition verParameters :: "string \<Rightarrow> nat" where
  "verParameters url = countVer False url"

text \<open>
  How often \<open>?ver=\<close> or \<open>&ver=\<close> occurs in a string: the places where the pattern of
  \<open>replaceVer\<close> can begin to match.
\<close>

fun verMarks :: "string \<Rightarrow> nat" where
  "verMarks [] = 0"
| "verMarks (c # cs) =
     (if (c = CHR ''?'' \<or> c = CHR ''&'') \<and> startsWith cs ''ver='' then 1 else 0) + verMarks cs"

section \<open>The color scheme selection handler\<close>

text \<open>
  One \<open>.color-option\<close> element: its \<open>selected\<close> class, the \<open>checked\<close> class of its
  \<open>.color-checkbox\<close>, the value of its radio input, the value of its \<open>.css_url\<close> input,
  and the property \<open>currentScheme\<close> of the element itself. The handler is bound with
  \<open>$(document).on('click', '.color-option', this.handleSchemeSelection)\<close>, so inside it
  \<open>this\<close> is the clicked element and \<open>this.currentScheme\<close> reads that property.
\<close>

record color_option =
  selected :: bool
  checked :: bool
  scheme :: jsval
  css_url :: jsval
  currentSchemeProp :: jsval

text \<open>
  The part of the page the handler touches. \<open>stylesheet\<close> is \<open>PP_Admin_Styles.$stylesheet\<close>:
  \<open>None\<close> for an empty jQuery set, otherwise the \<open>href\<close> attribute of the link element
  (\<open>None\<close> when it has none).
\<close>

record page =
  colorOptions :: "color_option list"
  adminColorScheme :: jsval
  previewStyle :: bool
  stylesheet :: "string option option"
  editorShown :: bool
  currentScheme :: jsval

definition href :: "page \<Rightarrow> string option" where
  "href pg = (case stylesheet pg of None \<Rightarrow> None | Some h \<Rightarrow> h)"

text \<open>
  \<open>handleSchemeSelection\<close> for a click on the option at index \<open>i\<close>. \<open>isSafeCssUrl\<close> is
  the global of that name when it is a function. A click needs an element, so an index
  outside the list stands for no event and leaves the page as it is.
\<close>

definition handleSchemeSelection ::
  "url_api \<Rightarrow> int \<Rightarrow> (string \<Rightarrow> bool) option \<Rightarrow> nat \<Rightarrow> page \<Rightarrow> page" where
  "handleSchemeSelection URL now isSafeCssUrl i pg =
     (if length (colorOptions pg) \<le> i then pg
      else let clicked = colorOptions pg ! i; sch = scheme clicked in
        if selected clicked then pg
        else let
            cleared = map (\<lambda>el. el\<lparr>selected := False, checked := False\<rparr>) (colorOptions pg);
            marked = cleared[i := (cleared ! i)\<lparr>selected := True, checked := True\<rparr>];
            sheet = (case stylesheet pg of None \<Rightarrow> Some None | Some h \<Rightarrow> Some h);
            newUrl = sanitizeCssUrl URL now (css_url clicked) (currentSchemeProp clicked) isSafeCssUrl;
            sheet' = (case newUrl of
                        None \<Rightarrow> sheet
                      | Some u \<Rightarrow> if u = [] then sheet else Some (Some u))
          in pg\<lparr>colorOptions := marked,
                adminColorScheme := sch,
                previewStyle := (sch = JSString ''publishpress-custom''),
                stylesheet := sheet',
                editorShown := (sch = JSString ''publishpress-custom''),
                currentScheme := sch\<rparr>)"

definition selectedCount :: "page \<Rightarrow> nat" where
  "selectedCount pg = length (filter selected (colorOptions pg))"

text \<open>
  A sequence of clicks, each with the clock value at the click and the index of the
  clicked option; every click is one execution of the handler.
\<close>

fun handleClicks ::
  "url_api \<Rightarrow> (string \<Rightarrow> bool) option \<Rightarrow> (int \<times> nat) list \<Rightarrow> page \<Rightarrow> page" where
  "handleClicks URL isSafeCssUrl [] pg = pg"
| "handleClicks URL isSafeCssUrl ((now, i) # clicks) pg =
     handleClicks URL isSafeCssUrl clicks (handleSchemeSelection URL now isSafeCssUrl i pg)"

section \<open>The migration notice\<close>

text \<open>
  The global \<open>elementor\<close> as the script reads it: undefined, defined without a \<open>saver\<close>,
  or with a saver whose \<open>isSaved\<close> is truthy or falsy.
\<close>

datatype elementor = ElementorUndefined | ElementorNoSaver | ElementorSaver bool

text \<open>The \<open>#twae-run-migration\<close> element; \<open>disabled\<close> is its disabled attribute.\<close>

record button =
  disabled :: bool
  opacity :: string
  cursor :: string
  label :: string

text \<open>An AJAX request: its \<open>action\<close> and, for the dismiss action, its \<open>value\<close> field.\<close>

record request =
  action :: string
  val :: "jsval option"

record migration =
  hasUnsavedChanges :: bool
  editorBound :: bool
  runButton :: "button option"
  noticeFaded :: bool
  requests :: "request list"
  toasts :: "string list"
  resultHtml :: string

definition checkUnsaved :: "elementor \<Rightarrow> bool" where
  "checkUnsaved el = (case el of ElementorSaver isSaved \<Rightarrow> \<not> isSaved | _ \<Rightarrow> False)"

text \<open>A jQuery call on \<open>$("#twae-run-migration")\<close> does nothing when the element is absent.\<close>

definition updateMigrationButtonState :: "migration \<Rightarrow> migration" where
  "updateMigrationButtonState s =
     (if hasUnsavedChanges s
      then s\<lparr>runButton := map_option
              (\<lambda>b. b\<lparr>opacity := ''0.5'', cursor := ''not-allowed'', disabled := True\<rparr>) (runButton s)\<rparr>
      else s\<lparr>runButton := map_option
              (\<lambda>b. b\<lparr>opacity := ''1'', cursor := ''pointer'', disabled := False\<rparr>) (runButton s)\<rparr>)"

text \<open>
  The state when the \<open>jQuery(function ($) { ... })\<close> callback has run, from the global
  \<open>elementor\<close> and the button of the page. The editor handlers are bound only when
  \<open>elementor\<close> has a saver.
\<close>

definition ready :: "elementor \<Rightarrow> button option \<Rightarrow> migration" where
  "ready el btn =
     (let s = \<lparr>hasUnsavedChanges = False, editorBound = False, runButton = btn,
                noticeFaded = False, requests = [], toasts = [], resultHtml = []\<rparr>
      in case el of
           ElementorSaver isSaved \<Rightarrow>
             updateMigrationButtonState (s\<lparr>hasUnsavedChanges := checkUnsaved el, editorBound := True\<rparr>)
         | _ \<Rightarrow> s)"

text \<open>\<open>mig_val == '' || mig_val == undefined\<close>, with the loose equality of JavaScript.\<close>

definition emptyOrUndefined :: "jsval \<Rightarrow> bool" where
  "emptyOrUndefined v =
     (case v of
        JSUndefined \<Rightarrow> True
      | JSNull \<Rightarrow> True
      | JSBool b \<Rightarrow> \<not> b
      | JSNumber n \<Rightarrow> n = 0
      | JSString s \<Rightarrow> s = [])"

text \<open>The click handler of the dismiss controls; \<open>mig_val\<close> is the notice's data value.\<close>

definition dismissClick :: "jsval \<Rightarrow> migration \<Rightarrow> migration" where
  "dismissClick mig_val s =
     (let none = emptyOrUndefined mig_val;
          v = (if none then JSString ''twe'' else mig_val)
      in s\<lparr>noticeFaded := (noticeFaded s \<or> none),
           requests := requests s @ [\<lparr>action = ''twae_hide_migration_notice'', val = Some v\<rparr>]\<rparr>)"

definition changeHandler :: "elementor \<Rightarrow> migration \<Rightarrow> migration" where
  "changeHandler el s = updateMigrationButtonState (s\<lparr>hasUnsavedChanges := checkUnsaved el\<rparr>)"

definition afterSave :: "migration \<Rightarrow> migration" where
  "afterSave s = updateMigrationButtonState (s\<lparr>hasUnsavedChanges := False\<rparr>)"

text \<open>The click handler of \<open>#twae-run-migration\<close>.\<close>

definition runClick :: "migration \<Rightarrow> migration" where
  "runClick s =
     (if hasUnsavedChanges s
      then s\<lparr>toasts := toasts s @ [''Please publish your changes before running migration.'']\<rparr>
      else s\<lparr>resultHtml := ''Running migration...'',
             requests := requests s @ [\<lparr>action = ''twae_run_migration'', val = None\<rparr>]\<rparr>)"

text \<open>
  The \<open>success\<close> and \<open>error\<close> callbacks of the run request. The timers they start
  (sliding the notice up, reloading the page) are not part of the state.
\<close>

definition ajaxSuccess :: "bool \<Rightarrow> string \<Rightarrow> migration \<Rightarrow> migration" where
  "ajaxSuccess ok message s =
     (if ok
      then s\<lparr>resultHtml := ''<strong>'' @ message @ ''</strong>'',
             runButton := map_option
               (\<lambda>b. b\<lparr>disabled := True, label := ''Migration Completed''\<rparr>) (runButton s)\<rparr>
      else s\<lparr>resultHtml := ''<span style='' @ [CHR 0x27] @ ''color:#cc0000;'' @ [CHR 0x27] @ ''>''
               @ message @ ''</span>''\<rparr>)"

definition ajaxError :: "migration \<Rightarrow> migration" where
  "ajaxError s =
     s\<lparr>resultHtml := ''<span style='' @ [CHR 0x27] @ ''color:red;'' @ [CHR 0x27] @ ''>AJAX Error</span>''\<rparr>"

datatype event =
    DismissClick jsval
  | EditorChange elementor
  | AfterSave
  | RunClick
  | AjaxSuccess bool string
  | AjaxError

text \<open>One handler execution; the editor events reach a handler only when it was bound.\<close>

definition step :: "migration \<Rightarrow> event \<Rightarrow> migration" where
  "step s ev =
     (case ev of
        DismissClick mig_val \<Rightarrow> dismissClick mig_val s
      | EditorChange el \<Rightarrow> if editorBound s then changeHandler el s else s
      | AfterSave \<Rightarrow> if editorBound s then afterSave s else s
      | RunClick \<Rightarrow> runClick s
      | AjaxSuccess ok message \<Rightarrow> ajaxSuccess ok message s
      | AjaxError \<Rightarrow> ajaxError s)"

definition runPosts :: "migration \<Rightarrow> request list" where
  "runPosts s = filter (\<lambda>r. action r = ''twae_run_migration'') (requests s)"

section \<open>Color arithmetic\<close>

subsection \<open>Parsing integers\<close>

text \<open>The value of a character as a digit of \<open>parseInt\<close>; 36 when it is none.\<close>

definition digitValue :: "char \<Rightarrow> int" where
  "digitValue c =
     (if isDigit c then code c - 48
      else if 97 \<le> code c \<and> code c \<le> 122 then code c - 87
      else if 65 \<le> code c \<and> code c \<le> 90 then code c - 55
      else 36)"

text \<open>
  \<open>parseInt(str, radix)\<close>, with radix 0 for a call without a radix and \<open>None\<close> for
  \<open>NaN\<close>: leading white space is skipped, a sign is read, \<open>0x\<close> is skipped when the
  radix is 16 or absent, and the longest run of digits of the radix is the number. The
  result is exact; JavaScript rounds it to a double, which changes it only beyond
  \<open>2^53\<close>.
\<close>

definition parseInt :: "string \<Rightarrow> int \<Rightarrow> int option" where
  "parseInt str radix =
     (let s0 = dropWhile isWhiteSpace str;
          negative = startsWith s0 ''-'';
          s1 = (if startsWith s0 ''-'' \<or> startsWith s0 ''+'' then tl s0 else s0);
          hexPrefix = ((radix = 0 \<or> radix = 16) \<and> (startsWith s1 ''0x'' \<or> startsWith s1 ''0X''));
          s2 = (if hexPrefix then drop 2 s1 else s1);
          r = (if hexPrefix then 16 else if radix = 0 then 10 else radix);
          z = takeWhile (\<lambda>c. digitValue c < r) s2
      in if r < 2 \<or> 36 < r then None
         else if z = [] then None
         else let v = foldl (\<lambda>a c. a * r + digitValue c) 0 z
              in Some (if negative then - v else v))"

text \<open>A number, possibly \<open>NaN\<close>, as a string in a radix.\<close>

definition numberToString :: "int \<Rightarrow> int option \<Rightarrow> string" where
  "numberToString radix n = (case n of None \<Rightarrow> ''NaN'' | Some i \<Rightarrow> intToString radix i)"

subsection \<open>Hex and RGB\<close>

text \<open>\<open>s.substring(a, b)\<close> for \<open>a \<le> b\<close>.\<close>

definition substring :: "nat \<Rightarrow> nat \<Rightarrow> string \<Rightarrow> string" where
  "substring a b s = take (b - a) (drop a s)"

text \<open>\<open>hex.replace('#', '')\<close> removes the first \<open>#\<close>: \<open>remove1\<close>.\<close>

definition hexToRgb :: "string \<Rightarrow> string" where
  "hexToRgb hex0 =
     (let hex1 = remove1 (CHR ''#'') hex0;
          hex = (if length hex1 = 3
                 then [hex1 ! 0, hex1 ! 0, hex1 ! 1, hex1 ! 1, hex1 ! 2, hex1 ! 2]
                 else hex1);
          r = parseInt (substring 0 2 hex) 16;
          g = parseInt (substring 2 4 hex) 16;
          b = parseInt (substring 4 6 hex) 16
      in numberToString 10 r @ '', '' @ numberToString 10 g @ '', '' @ numberToString 10 b)"

text \<open>
  \<open>rgb.match(/\d+/g)\<close>: the maximal runs of digits, left to right. The first argument
  is the run being read.
\<close>

fun digitRuns :: "string \<Rightarrow> string \<Rightarrow> string list" where
  "digitRuns run [] = (if run = [] then [] else [run])"
| "digitRuns run (c # cs) =
     (if isDigit c then digitRuns (run @ [c]) cs
      else (if run = [] then [] else [run]) @ digitRuns [] cs)"

text \<open>\<open>s.padStart(2, '0')\<close>.\<close>

definition padStart2 :: "string \<Rightarrow> string" where
  "padStart2 s = replicate (2 - length s) (CHR ''0'') @ s"

definition rgbToHex :: "string \<Rightarrow> string" where
  "rgbToHex rgb =
     (if startsWith rgb ''#'' then rgb
      else let rgbArray = digitRuns [] rgb in
        if 3 \<le> length rgbArray
        then (let r = padStart2 (numberToString 16 (parseInt (rgbArray ! 0) 0));
                  g = padStart2 (numberToString 16 (parseInt (rgbArray ! 1) 0));
                  b = padStart2 (numberToString 16 (parseInt (rgbArray ! 2) 0))
              in ''#'' @ r @ g @ b)
        else rgb)"

subsection \<open>Lighten and darken\<close>

text \<open>
  A finite double is \<open>Double m e\<close>, the number \<open>m * 2^e\<close>. The product of two doubles
  is the exact product rounded to 53 significant bits, ties to even, with the smallest
  exponent -1074 of the subnormal numbers, and infinite from \<open>2^1024\<close> on. A percentage
  that is \<open>NaN\<close> or infinite is outside the model.
\<close>

datatype double = Double int int

datatype product = Finite int int | PlusInfinity | MinusInfinity

function bitLength :: "int \<Rightarrow> int" where
  "bitLength n = (if n \<le> 0 then 0 else 1 + bitLength (n div 2))"
  by pat_completeness auto
termination
  by (relation "measure nat") auto

declare bitLength.simps [simp del]

text \<open>\<open>n / 2^k\<close> rounded to the nearest integer, a tie to the even one.\<close>

definition roundHalfEven :: "int \<Rightarrow> nat \<Rightarrow> int" where
  "roundHalfEven n k =
     (let q = n div 2 ^ k; r = n mod 2 ^ k in
      if 2 * r < 2 ^ k then q
      else if 2 ^ k < 2 * r then q + 1
      else if even q then q else q + 1)"

definition roundDouble :: "int \<Rightarrow> int \<Rightarrow> product" where
  "roundDouble n x =
     (let q = max (x + bitLength \<bar>n\<bar> - 53) (- 1074);
          n' = (if q \<le> x then n else roundHalfEven n (nat (q - x)));
          q' = (if q \<le> x then x else q)
      in if 1024 < bitLength \<bar>n'\<bar> + q'
         then (if 0 < n' then PlusInfinity else MinusInfinity)
         else Finite n' q')"

definition multiply :: "double \<Rightarrow> double \<Rightarrow> product" where
  "multiply a b = (case a of Double m1 e1 \<Rightarrow> (case b of Double m2 e2 \<Rightarrow>
     roundDouble (m1 * m2) (e1 + e2)))"

text \<open>The literal \<open>2.55\<close>: the double nearest to it.\<close>

definition twoPointFiveFive :: double where
  "twoPointFiveFive = Double 5742089524897382 (- 51)"

text \<open>
  \<open>Math.round\<close>: the nearest integer, a tie towards plus infinity; an infinity stays.
\<close>

datatype rounded = Fin int | PosInf | NegInf

definition mathRound :: "product \<Rightarrow> rounded" where
  "mathRound p =
     (case p of
        Finite n q \<Rightarrow>
          Fin (if 0 \<le> q then n * 2 ^ nat q
               else (2 * n + 2 ^ nat (- q)) div 2 ^ (nat (- q) + 1))
      | PlusInfinity \<Rightarrow> PosInf
      | MinusInfinity \<Rightarrow> NegInf)"

definition negate :: "rounded \<Rightarrow> rounded" where
  "negate a = (case a of Fin i \<Rightarrow> Fin (- i) | PosInf \<Rightarrow> NegInf | NegInf \<Rightarrow> PosInf)"

text \<open>\<open>ToInt32\<close>, which the operators \<open>>>\<close> and \<open>&\<close> apply to \<open>num\<close>; \<open>NaN\<close> becomes 0.\<close>

definition toInt32 :: "int option \<Rightarrow> int" where
  "toInt32 num =
     (case num of
        None \<Rightarrow> 0
      | Some n \<Rightarrow> (let m = n mod 2 ^ 32 in if 2 ^ 31 \<le> m then m - 2 ^ 32 else m))"

text \<open>
  One channel: \<open>X = x + amt\<close> and then \<open>X < 255 ? X < 1 ? 0 : X : 255\<close>. The sum is exact
  here; a double sum may round when \<open>amt\<close> is beyond \<open>2^53\<close>, where either is far above
  255 or far below 1.
\<close>

definition clampChannel :: "int \<Rightarrow> rounded \<Rightarrow> int" where
  "clampChannel x amt =
     (case amt of
        Fin a \<Rightarrow> (let X = x + a in if X < 255 then (if X < 1 then 0 else X) else 255)
      | PosInf \<Rightarrow> 255
      | NegInf \<Rightarrow> 0)"

definition lightenColor :: "string \<Rightarrow> double \<Rightarrow> string" where
  "lightenColor color percent =
     (let num = toInt32 (parseInt (remove1 (CHR ''#'') color) 16);
          amt = mathRound (multiply twoPointFiveFive percent);
          R = clampChannel (num div 2 ^ 16) amt;
          G = clampChannel ((num div 2 ^ 8) mod 256) amt;
          B = clampChannel (num mod 256) amt
      in ''#'' @ drop 1 (intToString 16 (16777216 + R * 65536 + G * 256 + B)))"

definition darkenColor :: "string \<Rightarrow> double \<Rightarrow> string" where
  "darkenColor color percent =
     (let num = toInt32 (parseInt (remove1 (CHR ''#'') color) 16);
          amt = negate (mathRound (multiply twoPointFiveFive percent));
          R = clampChannel (num div 2 ^ 16) amt;
          G = clampChannel ((num div 2 ^ 8) mod 256) amt;
          B = clampChannel (num mod 256) amt
      in ''#'' @ drop 1 (intToString 16 (16777216 + R * 65536 + G * 256 + B)))"

text \<open>A byte as two lower-case hex digits, and the characters that are hex digits.\<close>

definition byteHex :: "int \<Rightarrow> string" where
  "byteHex n = [digitChar (n div 16), digitChar (n mod 16)]"

definition isHexDigit :: "char \<Rightarrow> bool" where
  "isHexDigit c = (digitValue c < 16)"

definition isLowerHexDigit :: "char \<Rightarrow> bool" where
  "isLowerHexDigit c = (isDigit c \<or> (97 \<le> code c \<and> code c \<le> 102))"

section \<open>Properties of the sanitizer\<close>

subsection \<open>Digits and prefixes\<close>

lemma startsWith_append_sep:
  assumes "c \<notin> set p"
  shows "startsWith (xs @ c # ys) p = startsWith xs p"
proof (cases "length p \<le> length xs")
  case True
  then show ?thesis by (simp add: startsWith_def)
next
  case False
  then have lt: "length xs < length p" by simp
  have "length (take (length p) xs) \<noteq> length p" using lt by simp
  then have "take (length p) xs \<noteq> p" by (rule contrapos_nn) simp
  moreover have "take (length p) (xs @ c # ys) \<noteq> p"
  proof
    assume eq: "take (length p) (xs @ c # ys) = p"
    have "(take (length p) (xs @ c # ys)) ! length xs = c" using lt by (simp add: nth_append)
    with eq have "p ! length xs = c" by simp
    moreover have "p ! length xs \<in> set p" using lt by (rule nth_mem)
    ultimately show False using assms by simp
  qed
  ultimately show ?thesis by (simp add: startsWith_def)
qed

lemma code_char_of: "0 \<le> n \<Longrightarrow> n < 256 \<Longrightarrow> code (char_of n) = n"
  by (simp add: code_def)

lemma isDigit_digitChar: "0 \<le> d \<Longrightarrow> d < 10 \<Longrightarrow> isDigit (digitChar d)"
  by (simp add: isDigit_def digitChar_def code_char_of)

lemma digitsOf_decimal: "0 \<le> n \<Longrightarrow> list_all isDigit (digitsOf 10 n)"
proof (induction "10::int" n rule: digitsOf.induct)
  case (1 n)
  show ?case
  proof (cases "n < 10")
    case True
    with "1.prems" show ?thesis by (simp add: digitsOf.simps [of 10 n] isDigit_digitChar)
  next
    case False
    then have "list_all isDigit (digitsOf 10 (n div 10))" using 1 by simp
    moreover have "isDigit (digitChar (n mod 10))" by (rule isDigit_digitChar) simp_all
    ultimately show ?thesis using False by (simp add: digitsOf.simps [of 10 n])
  qed
qed

lemma digits_no_amp:
  assumes "list_all isDigit ds"
  shows "CHR ''&'' \<notin> set ds"
proof -
  have "\<not> isDigit (CHR ''&'')" by (simp add: isDigit_def code_def)
  with assms show ?thesis by (auto simp: list_all_iff)
qed

lemma intToString_no_amp: "CHR ''&'' \<notin> set (intToString 10 now)"
proof (cases "now < 0")
  case True
  then have "CHR ''&'' \<notin> set (digitsOf 10 (- now))"
    by (intro digits_no_amp digitsOf_decimal) simp
  with True show ?thesis by (simp add: intToString_def)
next
  case False
  then have "CHR ''&'' \<notin> set (digitsOf 10 now)"
    by (intro digits_no_amp digitsOf_decimal) simp
  with False show ?thesis by (simp add: intToString_def)
qed

subsection \<open>Counting \<open>ver\<close> parameters\<close>

lemma countVer_no_amp: "CHR ''&'' \<notin> set s \<Longrightarrow> countVer True s = 0"
  by (induction s) auto

lemma verMarks_append_sep:
  assumes "c \<notin> set ''ver=''"
  shows "verMarks (xs @ c # ys) = verMarks xs + verMarks (c # ys)"
proof (induction xs)
  case Nil
  then show ?case by simp
next
  case (Cons x xs)
  have "startsWith (xs @ c # ys) ''ver='' = startsWith xs ''ver=''"
    by (rule startsWith_append_sep [OF assms])
  with Cons show ?case by simp
qed

lemma countVer_through:
  assumes "c \<notin> set ''ver=''"
  shows "lacks u (CHR ''#'') \<Longrightarrow> verMarks u = 0
     \<Longrightarrow> countVer q (u @ c # ys) = countVer (q \<or> \<not> lacks u (CHR ''?'')) (c # ys)"
proof (induction u arbitrary: q)
  case Nil
  then show ?case by (simp add: lacks_def)
next
  case (Cons x xs)
  have sw: "startsWith (xs @ c # ys) ''ver='' = startsWith xs ''ver=''"
    by (rule startsWith_append_sep [OF assms])
  have x: "x \<noteq> CHR ''#''" and l: "lacks xs (CHR ''#'')"
    using Cons.prems(1) by (auto simp: lacks_def)
  have m: "verMarks xs = 0"
    and n: "\<not> ((x = CHR ''?'' \<or> x = CHR ''&'') \<and> startsWith xs ''ver='')"
    using Cons.prems(2) by (auto split: if_splits)
  show ?case
  proof (cases "(x = CHR ''?'' \<and> \<not> q) \<or> (x = CHR ''&'' \<and> q)")
    case True
    then have "countVer q ((x # xs) @ c # ys) = countVer True (xs @ c # ys)"
      using x n sw by auto
    also have "\<dots> = countVer True (c # ys)"
      using Cons.IH [OF l m, of True] by simp
    also have "True = (q \<or> \<not> lacks (x # xs) (CHR ''?''))"
      using True by (auto simp: lacks_def)
    finally show ?thesis .
  next
    case False
    then have "countVer q ((x # xs) @ c # ys) = countVer q (xs @ c # ys)"
      using x by auto
    also have "\<dots> = countVer (q \<or> \<not> lacks xs (CHR ''?'')) (c # ys)"
      by (rule Cons.IH [OF l m])
    also have "(q \<or> \<not> lacks xs (CHR ''?'')) = (q \<or> \<not> lacks (x # xs) (CHR ''?''))"
      using False by (auto simp: lacks_def)
    finally show ?thesis .
  qed
qed

lemma verParameters_appended:
  assumes "lacks u (CHR ''#'')" and "verMarks u = 0"
  shows "verParameters (u @ (if lacks u (CHR ''?'') then ''?ver='' else ''&ver='')
           @ intToString 10 now) = 1"
proof -
  have tail: "countVer True (''ver='' @ intToString 10 now) = 0"
    using intToString_no_amp [of now] by (intro countVer_no_amp) simp
  have sw: "startsWith (''ver='' @ intToString 10 now) ''ver=''"
    by (simp add: startsWith_def)
  show ?thesis
  proof (cases "lacks u (CHR ''?'')")
    case True
    have "countVer False (u @ CHR ''?'' # ''ver='' @ intToString 10 now)
        = countVer (False \<or> \<not> lacks u (CHR ''?'')) (CHR ''?'' # ''ver='' @ intToString 10 now)"
      using assms by (intro countVer_through) simp_all
    also have "\<dots> = 1" using True tail sw by simp
    finally show ?thesis using True by (simp add: verParameters_def)
  next
    case False
    have "countVer False (u @ CHR ''&'' # ''ver='' @ intToString 10 now)
        = countVer (False \<or> \<not> lacks u (CHR ''?'')) (CHR ''&'' # ''ver='' @ intToString 10 now)"
      using assms by (intro countVer_through) simp_all
    also have "\<dots> = 1" using False tail sw by simp
    finally show ?thesis using False by (simp add: verParameters_def)
  qed
qed

subsection \<open>The replacement of the first numeric \<open>ver\<close> parameter\<close>

lemma verMatchHere_None:
  "\<not> ((c = CHR ''?'' \<or> c = CHR ''&'') \<and> startsWith cs ''ver='') \<Longrightarrow> verMatchHere (c # cs) = None"
  by (auto simp: verMatchHere_def)

lemma replaceVer_unchanged:
  "verMarks t = 0 \<Longrightarrow> replaceVer t = t"
proof (induction t)
  case Nil
  then show ?case by simp
next
  case (Cons c cs)
  then have z: "verMarks cs = 0"
    and n: "\<not> ((c = CHR ''?'' \<or> c = CHR ''&'') \<and> startsWith cs ''ver='')"
    by (auto split: if_splits)
  have "verMatchHere (c # cs) = None" using n by (rule verMatchHere_None)
  with Cons.IH [OF z] show ?case by simp
qed

lemma digits_then_stop:
  assumes "list_all isDigit ds" and "post = [] \<or> \<not> isDigit (hd post)"
  shows "takeWhile isDigit (ds @ post) = ds" and "dropWhile isDigit (ds @ post) = post"
proof -
  have a: "\<forall>x\<in>set ds. isDigit x" using assms(1) by (simp add: list_all_iff)
  have t: "takeWhile isDigit post = []" using assms(2) by (cases post) auto
  have d: "dropWhile isDigit post = post" using assms(2) by (cases post) auto
  show "takeWhile isDigit (ds @ post) = ds" using a t by (simp add: takeWhile_append2)
  show "dropWhile isDigit (ds @ post) = post" using a d by (simp add: dropWhile_append2)
qed

lemma verMatchHere_hit:
  assumes "c = CHR ''?'' \<or> c = CHR ''&''" and "ds \<noteq> []" and "list_all isDigit ds"
    and "post = [] \<or> \<not> isDigit (hd post)"
  shows "verMatchHere (c # ''ver='' @ ds @ post)
       = (if startsWith post ''&'' then Some (c, True, tl post) else Some (c, False, post))"
  using assms(1,2) digits_then_stop [OF assms(3,4)]
  by (simp add: verMatchHere_def startsWith_def Let_def)

lemma replaceVer_first:
  assumes "verMarks pre = 0" and "c \<notin> set ''ver=''"
    and "verMatchHere (c # w) = Some (p1, p2, rest)"
  shows "replaceVer (pre @ c # w) = pre @ (if p2 then [p1] else []) @ rest"
  using assms(1)
proof (induction pre)
  case Nil
  then show ?case using assms(3) by simp
next
  case (Cons x xs)
  then have z: "verMarks xs = 0"
    and n: "\<not> ((x = CHR ''?'' \<or> x = CHR ''&'') \<and> startsWith xs ''ver='')"
    by (auto split: if_splits)
  have "startsWith (xs @ c # w) ''ver='' = startsWith xs ''ver=''"
    by (rule startsWith_append_sep [OF assms(2)])
  with n have "\<not> ((x = CHR ''?'' \<or> x = CHR ''&'') \<and> startsWith (xs @ c # w) ''ver='')"
    by simp
  then have "verMatchHere (x # xs @ c # w) = None" by (rule verMatchHere_None)
  with Cons.IH [OF z] show ?case by simp
qed

lemma replaceVer_single:
  assumes c: "c = CHR ''?'' \<or> c = CHR ''&''" and ds: "ds \<noteq> []" "list_all isDigit ds"
    and post: "post = [] \<or> hd post = CHR ''&''"
    and pre0: "verMarks pre = 0" and post0: "verMarks post = 0"
  shows "replaceVer (pre @ c # ''ver='' @ ds @ post) = pre @ (if post = [] then [] else c # tl post)"
    and "verMarks (pre @ (if post = [] then [] else c # tl post)) = 0"
proof -
  have nd: "post = [] \<or> \<not> isDigit (hd post)"
    using post by (auto simp: isDigit_def code_def)
  have cn: "c \<notin> set ''ver=''" using c by auto
  note hit = verMatchHere_hit [OF c ds nd]
  show "replaceVer (pre @ c # ''ver='' @ ds @ post) = pre @ (if post = [] then [] else c # tl post)"
  proof (cases post)
    case Nil
    then show ?thesis
      using replaceVer_first [OF pre0 cn, of "''ver='' @ ds @ post" c False post] hit
      by (simp add: startsWith_def)
  next
    case (Cons h post')
    with post have h: "h = CHR ''&''" by simp
    then show ?thesis
      using replaceVer_first [OF pre0 cn, of "''ver='' @ ds @ post" c True "tl post"] hit Cons
      by (simp add: startsWith_def)
  qed
  show "verMarks (pre @ (if post = [] then [] else c # tl post)) = 0"
  proof (cases post)
    case Nil
    with pre0 show ?thesis by simp
  next
    case (Cons h post')
    with post have h: "h = CHR ''&''" by simp
    have "verMarks (c # post') = verMarks (CHR ''&'' # post')" using c by auto
    also have "\<dots> = 0" using post0 Cons h by simp
    finally have "verMarks (c # post') = 0" .
    moreover have "verMarks (pre @ c # post') = verMarks pre + verMarks (c # post')"
      by (rule verMarks_append_sep [OF cn])
    ultimately show ?thesis using pre0 Cons by simp
  qed
qed

subsection \<open>Rejected URLs\<close>

text \<open>
  Claim C1. A string that, after trimming, begins with \<open>javascript:\<close>, \<open>data:\<close> or
  \<open>vbscript:\<close> in any letter case, or that the URL constructor parses to a protocol other
  than \<open>http:\<close> and \<open>https:\<close>, makes \<open>sanitizeCssUrl\<close> return \<open>null\<close>, whatever the
  scheme, the validator and the clock are.
\<close>

theorem sanitizeCssUrl_rejects:
  assumes "startsWith (toLowerCase (trim s)) ''javascript:''
         \<or> startsWith (toLowerCase (trim s)) ''data:''
         \<or> startsWith (toLowerCase (trim s)) ''vbscript:''
         \<or> (\<exists>parse protocol. URL = Some parse \<and> parse (trim s) = Some protocol
               \<and> toLowerCase protocol \<noteq> ''http:'' \<and> toLowerCase protocol \<noteq> ''https:'')"
  shows "sanitizeCssUrl URL now (JSString s) sch isSafe = None"
proof -
  from assms consider "dangerousScheme (trim s)" | "protocolRejected URL (trim s)"
    by (auto simp: dangerousScheme_def protocolRejected_def Let_def)
  then show ?thesis
    by cases (simp_all add: sanitizeCssUrl_def Let_def)
qed

theorem sanitizeCssUrl_rejects_witness:
  "sanitizeCssUrl None 1700000000000 (JSString ''  JaVaScRiPt:alert(1) '')
      (JSString ''publishpress-custom'') None = None
   \<and> sanitizeCssUrl (Some (\<lambda>u. Some ''ftp:'')) 1700000000000
      (JSString ''ftp://example.com/colors.css'') JSUndefined None = None"
proof -
  have a: "startsWith (toLowerCase (trim ''  JaVaScRiPt:alert(1) '')) ''javascript:''"
    by code_simp
  have b: "toLowerCase ''ftp:'' \<noteq> ''http:'' \<and> toLowerCase ''ftp:'' \<noteq> ''https:''"
    by code_simp
  have "sanitizeCssUrl None 1700000000000 (JSString ''  JaVaScRiPt:alert(1) '')
      (JSString ''publishpress-custom'') None = None"
    using a by (intro sanitizeCssUrl_rejects) simp
  moreover have "sanitizeCssUrl (Some (\<lambda>u. Some ''ftp:'')) 1700000000000
      (JSString ''ftp://example.com/colors.css'') JSUndefined None = None"
    using b by (intro sanitizeCssUrl_rejects) simp
  ultimately show ?thesis by simp
qed

subsection \<open>The cache-busting parameter\<close>

text \<open>
  Claim C2, as the code has it. Take the scheme \<open>publishpress-custom\<close> and an accepted
  URL whose trimmed form has no fragment (no \<open>#\<close>) and in which \<open>?ver=\<close> or \<open>&ver=\<close>
  occurs either not at all, or once and then followed by digits only up to the end of the
  string or the next \<open>&\<close>. The URL returned is the trimmed input without that parameter,
  followed by \<open>?ver=\<close> and the clock value when no \<open>?\<close> is left in it and by \<open>&ver=\<close>
  and the clock value otherwise, and it has exactly one \<open>ver=\<close> query parameter.
\<close>

theorem sanitizeCssUrl_single_ver:
  assumes acc: "sanitizeCssUrl URL now (JSString s) (JSString ''publishpress-custom'') isSafe = Some r"
    and nofrag: "lacks (trim s) (CHR ''#'')"
    and inp: "(verMarks (trim s) = 0 \<and> u = trim s)
       \<or> (trim s = pre @ c # ''ver='' @ ds @ post
           \<and> (c = CHR ''?'' \<or> c = CHR ''&'') \<and> ds \<noteq> [] \<and> list_all isDigit ds
           \<and> (post = [] \<or> hd post = CHR ''&'')
           \<and> verMarks pre = 0 \<and> verMarks post = 0
           \<and> u = pre @ (if post = [] then [] else c # tl post))"
  shows "verParameters r = 1
     \<and> r = u @ (if lacks u (CHR ''?'') then ''?ver='' else ''&ver='') @ intToString 10 now"
proof -
  have r: "r = cacheBust now (trim s)"
    using acc by (simp add: sanitizeCssUrl_def Let_def split: if_splits)
  have u: "replaceVer (trim s) = u \<and> verMarks u = 0 \<and> lacks u (CHR ''#'')"
    using inp
  proof
    assume "verMarks (trim s) = 0 \<and> u = trim s"
    then show ?thesis using nofrag by (simp add: replaceVer_unchanged)
  next
    assume h: "trim s = pre @ c # ''ver='' @ ds @ post
         \<and> (c = CHR ''?'' \<or> c = CHR ''&'') \<and> ds \<noteq> [] \<and> list_all isDigit ds
         \<and> (post = [] \<or> hd post = CHR ''&'')
         \<and> verMarks pre = 0 \<and> verMarks post = 0
         \<and> u = pre @ (if post = [] then [] else c # tl post)"
    then have a: "replaceVer (pre @ c # ''ver='' @ ds @ post) = u"
      and b: "verMarks u = 0"
      using replaceVer_single [of c ds post pre] by simp_all
    have "set (tl post) \<subseteq> set post" by (cases post) auto
    then have "set u \<subseteq> set (trim s)" using h by auto
    then have "lacks u (CHR ''#'')" using nofrag by (auto simp: lacks_def)
    with a b h show ?thesis by simp
  qed
  then have shape: "r = u @ (if lacks u (CHR ''?'') then ''?ver='' else ''&ver='') @ intToString 10 now"
    using r by (simp add: cacheBust_def Let_def)
  have "verParameters (u @ (if lacks u (CHR ''?'') then ''?ver='' else ''&ver='')
           @ intToString 10 now) = 1"
    using u by (intro verParameters_appended) simp_all
  with shape show ?thesis by simp
qed

theorem sanitizeCssUrl_single_ver_witness:
  "sanitizeCssUrl (Some (\<lambda>u. Some ''https:'')) 1700000000000
      (JSString ''https://example.com/wp-admin/css/colors.min.css?ver=6&x=1'')
      (JSString ''publishpress-custom'') None
     = Some ''https://example.com/wp-admin/css/colors.min.css?x=1&ver=1700000000000''
   \<and> verParameters ''https://example.com/wp-admin/css/colors.min.css?x=1&ver=1700000000000'' = 1
   \<and> sanitizeCssUrl (Some (\<lambda>u. Some ''https:'')) 1700000000000
      (JSString ''https://example.com/colors.css'')
      (JSString ''publishpress-custom'') None
     = Some ''https://example.com/colors.css?ver=1700000000000''
   \<and> verParameters ''https://example.com/colors.css?ver=1700000000000'' = 1"
proof -
  have a: "sanitizeCssUrl (Some (\<lambda>u. Some ''https:'')) 1700000000000
      (JSString ''https://example.com/wp-admin/css/colors.min.css?ver=6&x=1'')
      (JSString ''publishpress-custom'') None
     = Some ''https://example.com/wp-admin/css/colors.min.css?x=1&ver=1700000000000''"
    by code_simp
  have f: "lacks (trim ''https://example.com/wp-admin/css/colors.min.css?ver=6&x=1'') (CHR ''#'')"
    by code_simp
  have i: "(verMarks (trim ''https://example.com/wp-admin/css/colors.min.css?ver=6&x=1'') = 0
        \<and> ''https://example.com/wp-admin/css/colors.min.css?x=1''
            = trim ''https://example.com/wp-admin/css/colors.min.css?ver=6&x=1'')
       \<or> (trim ''https://example.com/wp-admin/css/colors.min.css?ver=6&x=1''
             = ''https://example.com/wp-admin/css/colors.min.css'' @ CHR ''?'' # ''ver='' @ ''6'' @ ''&x=1''
           \<and> (CHR ''?'' = CHR ''?'' \<or> CHR ''?'' = CHR ''&'') \<and> ''6'' \<noteq> [] \<and> list_all isDigit ''6''
           \<and> (''&x=1'' = [] \<or> hd ''&x=1'' = CHR ''&'')
           \<and> verMarks ''https://example.com/wp-admin/css/colors.min.css'' = 0
           \<and> verMarks ''&x=1'' = 0
           \<and> ''https://example.com/wp-admin/css/colors.min.css?x=1''
               = ''https://example.com/wp-admin/css/colors.min.css''
                   @ (if ''&x=1'' = [] then [] else CHR ''?'' # tl ''&x=1''))"
    by code_simp
  have one: "verParameters ''https://example.com/wp-admin/css/colors.min.css?x=1&ver=1700000000000'' = 1"
    using sanitizeCssUrl_single_ver [OF a f i] by (rule conjunct1)
  have b: "sanitizeCssUrl (Some (\<lambda>u. Some ''https:'')) 1700000000000
      (JSString ''https://example.com/colors.css'')
      (JSString ''publishpress-custom'') None
     = Some ''https://example.com/colors.css?ver=1700000000000''"
    by code_simp
  have f2: "lacks (trim ''https://example.com/colors.css'') (CHR ''#'')" by code_simp
  have i2: "verMarks (trim ''https://example.com/colors.css'') = 0
      \<and> ''https://example.com/colors.css'' = trim ''https://example.com/colors.css''"
    by code_simp
  have two: "verParameters ''https://example.com/colors.css?ver=1700000000000'' = 1"
    using sanitizeCssUrl_single_ver [OF b f2 disjI1 [OF i2]] by (rule conjunct1)
  from a one b two show ?thesis by blast
qed

text \<open>
  An accepted URL with two \<open>ver\<close> parameters keeps the second one and gets the new one:
  the result has two \<open>ver=\<close> query parameters.
\<close>

theorem sanitizeCssUrl_two_ver_counterexample:
  "sanitizeCssUrl (Some (\<lambda>u. Some ''https:'')) 1700000000000
      (JSString ''https://example.com/wp-admin/css/colors.min.css?ver=1&ver=2'')
      (JSString ''publishpress-custom'') None
     = Some ''https://example.com/wp-admin/css/colors.min.css?ver=2&ver=1700000000000''
   \<and> verParameters ''https://example.com/wp-admin/css/colors.min.css?ver=2&ver=1700000000000'' = 2"
  by code_simp

text \<open>
  The pattern needs digits after \<open>ver=\<close>: a \<open>ver\<close> parameter with another value stays,
  and the result has two as well.
\<close>

lemma sanitizeCssUrl_named_ver:
  "sanitizeCssUrl (Some (\<lambda>u. Some ''https:'')) 1700000000000
      (JSString ''https://example.com/colors.css?ver=beta'')
      (JSString ''publishpress-custom'') None
     = Some ''https://example.com/colors.css?ver=beta&ver=1700000000000''
   \<and> verParameters ''https://example.com/colors.css?ver=beta&ver=1700000000000'' = 2"
  by code_simp

subsection \<open>Accepted URLs\<close>

lemma http_not_dangerous:
  assumes "startsWith (toLowerCase t) ''http:'' \<or> startsWith (toLowerCase t) ''https:''"
  shows "\<not> dangerousScheme t"
proof -
  from assms obtain h rest where "toLowerCase t = h # rest" and "h = CHR ''h''"
    by (cases "toLowerCase t") (auto simp: startsWith_def)
  then show ?thesis by (simp add: dangerousScheme_def startsWith_def)
qed

text \<open>
  Claim C7. A string that is not empty after trimming, that the validator (when there is
  one) passes, that is an absolute \<open>http:\<close> or \<open>https:\<close> URL or at least carries none of
  the three rejected scheme prefixes, and that the URL constructor (when there is one and
  it does not throw) reports as \<open>http:\<close> or \<open>https:\<close>, is accepted: \<open>sanitizeCssUrl\<close>
  returns a string, and the string is not empty.
\<close>

theorem sanitizeCssUrl_accepts:
  assumes nonempty: "trim s \<noteq> []"
    and validator: "isSafe = None \<or> (\<exists>f. isSafe = Some f \<and> f (trim s))"
    and scheme: "startsWith (toLowerCase (trim s)) ''http:''
               \<or> startsWith (toLowerCase (trim s)) ''https:''
               \<or> \<not> dangerousScheme (trim s)"
    and api: "URL = None \<or> (\<exists>parse. URL = Some parse \<and> (parse (trim s) = None
               \<or> (\<exists>protocol. parse (trim s) = Some protocol
                     \<and> (toLowerCase protocol = ''http:'' \<or> toLowerCase protocol = ''https:''))))"
  shows "\<exists>r. sanitizeCssUrl URL now (JSString s) sch isSafe = Some r \<and> r \<noteq> []"
proof -
  have s: "s \<noteq> []" using nonempty by (auto simp: trim_def)
  have v: "\<not> (case isSafe of None \<Rightarrow> False | Some f \<Rightarrow> \<not> f (trim s))"
    using validator by auto
  have d: "\<not> dangerousScheme (trim s)" using scheme http_not_dangerous by blast
  have p: "\<not> protocolRejected URL (trim s)" using api by (auto simp: protocolRejected_def)
  have c: "cacheBust now (trim s) \<noteq> []" by (simp add: cacheBust_def Let_def)
  show ?thesis using s nonempty v d p c by (simp add: sanitizeCssUrl_def Let_def)
qed

theorem sanitizeCssUrl_accepts_witness:
  "sanitizeCssUrl (Some (\<lambda>u. Some ''https:'')) 1700000000000
      (JSString '' https://example.com/wp-admin/css/colors.min.css '') JSUndefined
      (Some (\<lambda>u. True))
     = Some ''https://example.com/wp-admin/css/colors.min.css''"
proof -
  have n: "trim '' https://example.com/wp-admin/css/colors.min.css '' \<noteq> []" by code_simp
  have h: "startsWith (toLowerCase (trim '' https://example.com/wp-admin/css/colors.min.css '')) ''https:''"
    by code_simp
  have l: "toLowerCase ''https:'' = ''https:''" by code_simp
  have "\<exists>r. sanitizeCssUrl (Some (\<lambda>u. Some ''https:'')) 1700000000000
      (JSString '' https://example.com/wp-admin/css/colors.min.css '') JSUndefined
      (Some (\<lambda>u. True)) = Some r \<and> r \<noteq> []"
    using n h l by (intro sanitizeCssUrl_accepts) simp_all
  moreover have "sanitizeCssUrl (Some (\<lambda>u. Some ''https:'')) 1700000000000
      (JSString '' https://example.com/wp-admin/css/colors.min.css '') JSUndefined
      (Some (\<lambda>u. True))
     = Some ''https://example.com/wp-admin/css/colors.min.css''"
    by code_simp
  ultimately show ?thesis by simp
qed

subsection \<open>Other schemes\<close>

text \<open>
  Claim C9. When the scheme is not \<open>publishpress-custom\<close>, an accepted URL comes back as
  the trimmed input string, with nothing added or removed.
\<close>

theorem sanitizeCssUrl_other_scheme:
  assumes "sanitizeCssUrl URL now cssUrl sch isSafe = Some r"
    and "sch \<noteq> JSString ''publishpress-custom''"
  shows "\<exists>s. cssUrl = JSString s \<and> r = trim s"
  using assms
  by (auto simp: sanitizeCssUrl_def Let_def split: jsval.splits if_splits)

theorem sanitizeCssUrl_other_scheme_witness:
  "sanitizeCssUrl (Some (\<lambda>u. Some ''https:'')) 1700000000000
      (JSString ''  https://example.com/colors.css?ver=6 '') (JSString ''fresh'') None
     = Some ''https://example.com/colors.css?ver=6''
   \<and> trim ''  https://example.com/colors.css?ver=6 '' = ''https://example.com/colors.css?ver=6''"
proof -
  have a: "sanitizeCssUrl (Some (\<lambda>u. Some ''https:'')) 1700000000000
      (JSString ''  https://example.com/colors.css?ver=6 '') (JSString ''fresh'') None
     = Some ''https://example.com/colors.css?ver=6''"
    by code_simp
  have n: "JSString ''fresh'' \<noteq> JSString ''publishpress-custom''" by simp
  from sanitizeCssUrl_other_scheme [OF a n]
  have "''https://example.com/colors.css?ver=6'' = trim ''  https://example.com/colors.css?ver=6 ''"
    by simp
  with a show ?thesis by simp
qed

section \<open>Properties of the selection handler\<close>

lemma cleared_unselected:
  "filter selected (map (\<lambda>el. el\<lparr>selected := False, checked := False\<rparr>) xs) = []"
  by (induction xs) simp_all

lemma marked_selected:
  assumes "i < length xs"
  shows "filter selected
           ((map (\<lambda>el. el\<lparr>selected := False, checked := False\<rparr>) xs)
              [i := (map (\<lambda>el. el\<lparr>selected := False, checked := False\<rparr>) xs ! i)
                      \<lparr>selected := True, checked := True\<rparr>])
         = [(xs ! i)\<lparr>selected := True, checked := True\<rparr>]"
proof -
  let ?c = "map (\<lambda>el. el\<lparr>selected := False, checked := False\<rparr>) xs"
  have len: "i < length ?c" using assms by simp
  have split: "?c[i := (?c ! i)\<lparr>selected := True, checked := True\<rparr>]
      = take i ?c @ (?c ! i)\<lparr>selected := True, checked := True\<rparr> # drop (Suc i) ?c"
    using len by (rule upd_conv_take_nth_drop)
  have t: "filter selected (take i ?c) = []"
    using cleared_unselected [of "take i xs"] by (simp add: take_map)
  have d: "filter selected (drop (Suc i) ?c) = []"
    using cleared_unselected [of "drop (Suc i) xs"] by (simp add: drop_map)
  have "filter selected (?c[i := (?c ! i)\<lparr>selected := True, checked := True\<rparr>])
      = [(?c ! i)\<lparr>selected := True, checked := True\<rparr>]"
    by (simp only: split filter_append filter.simps t d) simp
  then show ?thesis using assms by simp
qed

lemma handler_already_selected:
  "selected (colorOptions pg ! i) \<Longrightarrow> handleSchemeSelection URL now isSafeCssUrl i pg = pg"
  by (simp add: handleSchemeSelection_def Let_def)

lemma handler_options:
  assumes "i < length (colorOptions pg)" and "\<not> selected (colorOptions pg ! i)"
  shows "colorOptions (handleSchemeSelection URL now isSafeCssUrl i pg)
       = (map (\<lambda>el. el\<lparr>selected := False, checked := False\<rparr>) (colorOptions pg))
           [i := (map (\<lambda>el. el\<lparr>selected := False, checked := False\<rparr>) (colorOptions pg) ! i)
                   \<lparr>selected := True, checked := True\<rparr>]"
  using assms by (simp add: handleSchemeSelection_def Let_def)

text \<open>
  Claim C6. When \<open>sanitizeCssUrl\<close> returns \<open>null\<close> for the clicked option's URL, the
  handler leaves the \<open>href\<close> of the stylesheet as it was. The handler has no failing
  branch: it is a total function on pages.
\<close>

theorem rejected_url_keeps_href:
  assumes "sanitizeCssUrl URL now (css_url (colorOptions pg ! i))
             (currentSchemeProp (colorOptions pg ! i)) isSafeCssUrl = None"
  shows "href (handleSchemeSelection URL now isSafeCssUrl i pg) = href pg"
  using assms
  by (simp add: handleSchemeSelection_def href_def Let_def split: option.splits)

theorem rejected_url_keeps_href_witness:
  "href (handleSchemeSelection None 1700000000000 None 0
      \<lparr>colorOptions = [\<lparr>selected = False, checked = False, scheme = JSString ''fresh'',
                          css_url = JSString ''javascript:alert(1)'',
                          currentSchemeProp = JSUndefined\<rparr>],
       adminColorScheme = JSString ''light'', previewStyle = False,
       stylesheet = Some (Some ''https://example.com/colors.css''),
       editorShown = False, currentScheme = JSString ''light''\<rparr>)
   = Some ''https://example.com/colors.css''"
proof -
  let ?pg = "\<lparr>colorOptions = [\<lparr>selected = False, checked = False, scheme = JSString ''fresh'',
                          css_url = JSString ''javascript:alert(1)'',
                          currentSchemeProp = JSUndefined\<rparr>],
       adminColorScheme = JSString ''light'', previewStyle = False,
       stylesheet = Some (Some ''https://example.com/colors.css''),
       editorShown = False, currentScheme = JSString ''light''\<rparr>"
  have n: "sanitizeCssUrl None 1700000000000 (css_url (colorOptions ?pg ! 0))
             (currentSchemeProp (colorOptions ?pg ! 0)) None = None"
    by code_simp
  have "href (handleSchemeSelection None 1700000000000 None 0 ?pg) = href ?pg"
    using n by (rule rejected_url_keeps_href)
  then show ?thesis by (simp add: href_def)
qed

lemma handler_keeps_at_most_one:
  assumes "selectedCount pg \<le> 1"
  shows "selectedCount (handleSchemeSelection URL now isSafeCssUrl i pg) \<le> 1"
proof (cases "i < length (colorOptions pg) \<and> \<not> selected (colorOptions pg ! i)")
  case True
  then have "filter selected (colorOptions (handleSchemeSelection URL now isSafeCssUrl i pg))
      = [(colorOptions pg ! i)\<lparr>selected := True, checked := True\<rparr>]"
    using handler_options [of i pg URL now isSafeCssUrl] marked_selected [of i "colorOptions pg"]
    by simp
  then show ?thesis by (simp add: selectedCount_def)
next
  case False
  then have "handleSchemeSelection URL now isSafeCssUrl i pg = pg"
    by (auto simp: handleSchemeSelection_def Let_def)
  with assms show ?thesis by simp
qed

lemma clicks_keep_at_most_one:
  "selectedCount pg \<le> 1 \<Longrightarrow> selectedCount (handleClicks URL isSafeCssUrl clicks pg) \<le> 1"
proof (induction clicks arbitrary: pg)
  case Nil
  then show ?case by simp
next
  case (Cons click clicks)
  obtain now i where c: "click = (now, i)" by (cases click)
  have "selectedCount (handleSchemeSelection URL now isSafeCssUrl i pg) \<le> 1"
    using Cons.prems by (rule handler_keeps_at_most_one)
  then show ?case using Cons.IH c by simp
qed

text \<open>
  Claim C8. At most one \<open>.color-option\<close> carries \<open>selected\<close> after every execution of the
  handler: this is an invariant of the page. From a page with at most one selected option
  every execution, and every sequence of executions, leaves at most one. A click on an
  option that is not selected removes the class from every option and adds it to the
  clicked one, which leaves exactly that one selected; a click on a selected option
  returns at once and changes nothing.
\<close>

theorem selection_after_click:
  "(selectedCount pg \<le> 1 \<longrightarrow> selectedCount (handleSchemeSelection URL now isSafeCssUrl i pg) \<le> 1)
   \<and> (selectedCount pg \<le> 1 \<longrightarrow> selectedCount (handleClicks URL isSafeCssUrl clicks pg) \<le> 1)
   \<and> (i < length (colorOptions pg) \<and> \<not> selected (colorOptions pg ! i) \<longrightarrow>
          filter selected (colorOptions (handleSchemeSelection URL now isSafeCssUrl i pg))
            = [(colorOptions pg ! i)\<lparr>selected := True, checked := True\<rparr>]
          \<and> selected (colorOptions (handleSchemeSelection URL now isSafeCssUrl i pg) ! i)
          \<and> selectedCount (handleSchemeSelection URL now isSafeCssUrl i pg) = 1)
   \<and> (selected (colorOptions pg ! i) \<longrightarrow> handleSchemeSelection URL now isSafeCssUrl i pg = pg)"
proof -
  have c: "i < length (colorOptions pg) \<and> \<not> selected (colorOptions pg ! i) \<longrightarrow>
          filter selected (colorOptions (handleSchemeSelection URL now isSafeCssUrl i pg))
            = [(colorOptions pg ! i)\<lparr>selected := True, checked := True\<rparr>]
          \<and> selected (colorOptions (handleSchemeSelection URL now isSafeCssUrl i pg) ! i)
          \<and> selectedCount (handleSchemeSelection URL now isSafeCssUrl i pg) = 1"
  proof
    assume h: "i < length (colorOptions pg) \<and> \<not> selected (colorOptions pg ! i)"
    then have l: "i < length (colorOptions pg)" and n: "\<not> selected (colorOptions pg ! i)"
      by simp_all
    have f: "filter selected (colorOptions (handleSchemeSelection URL now isSafeCssUrl i pg))
        = [(colorOptions pg ! i)\<lparr>selected := True, checked := True\<rparr>]"
      using handler_options [OF l n] marked_selected [OF l] by simp
    have s: "selected (colorOptions (handleSchemeSelection URL now isSafeCssUrl i pg) ! i)"
      using handler_options [OF l n] l by simp
    show "filter selected (colorOptions (handleSchemeSelection URL now isSafeCssUrl i pg))
            = [(colorOptions pg ! i)\<lparr>selected := True, checked := True\<rparr>]
          \<and> selected (colorOptions (handleSchemeSelection URL now isSafeCssUrl i pg) ! i)
          \<and> selectedCount (handleSchemeSelection URL now isSafeCssUrl i pg) = 1"
      using f s by (simp add: selectedCount_def)
  qed
  show ?thesis
    using c handler_keeps_at_most_one [of pg URL now isSafeCssUrl i]
      clicks_keep_at_most_one [of pg URL isSafeCssUrl clicks]
      handler_already_selected [of pg i URL now isSafeCssUrl]
    by blast
qed

theorem selection_after_click_witness:
  "selectedCount (handleSchemeSelection None 1700000000000 None 1
      \<lparr>colorOptions = [\<lparr>selected = True, checked = True, scheme = JSString ''fresh'',
                          css_url = JSString ''https://example.com/fresh.css'',
                          currentSchemeProp = JSUndefined\<rparr>,
                       \<lparr>selected = False, checked = False, scheme = JSString ''light'',
                          css_url = JSString ''https://example.com/light.css'',
                          currentSchemeProp = JSUndefined\<rparr>],
       adminColorScheme = JSString ''fresh'', previewStyle = False,
       stylesheet = Some (Some ''https://example.com/fresh.css''),
       editorShown = False, currentScheme = JSString ''fresh''\<rparr>) = 1
   \<and> selectedCount (handleClicks None None [(1700000000000, 1), (1700000000500, 1), (1700000000900, 0)]
      \<lparr>colorOptions = [\<lparr>selected = True, checked = True, scheme = JSString ''fresh'',
                          css_url = JSString ''https://example.com/fresh.css'',
                          currentSchemeProp = JSUndefined\<rparr>,
                       \<lparr>selected = False, checked = False, scheme = JSString ''light'',
                          css_url = JSString ''https://example.com/light.css'',
                          currentSchemeProp = JSUndefined\<rparr>],
       adminColorScheme = JSString ''fresh'', previewStyle = False,
       stylesheet = Some (Some ''https://example.com/fresh.css''),
       editorShown = False, currentScheme = JSString ''fresh''\<rparr>) \<le> 1"
proof -
  let ?pg = "\<lparr>colorOptions = [\<lparr>selected = True, checked = True, scheme = JSString ''fresh'',
                          css_url = JSString ''https://example.com/fresh.css'',
                          currentSchemeProp = JSUndefined\<rparr>,
                       \<lparr>selected = False, checked = False, scheme = JSString ''light'',
                          css_url = JSString ''https://example.com/light.css'',
                          currentSchemeProp = JSUndefined\<rparr>],
       adminColorScheme = JSString ''fresh'', previewStyle = False,
       stylesheet = Some (Some ''https://example.com/fresh.css''),
       editorShown = False, currentScheme = JSString ''fresh''\<rparr>"
  have l: "1 < length (colorOptions ?pg)" by simp
  have u: "\<not> selected (colorOptions ?pg ! 1)" by simp
  have o: "selectedCount ?pg \<le> 1" by (simp add: selectedCount_def)
  from selection_after_click [of ?pg None 1700000000000 None 1
      "[(1700000000000, 1), (1700000000500, 1), (1700000000900, 0)]"] l u o
  show ?thesis by blast
qed

section \<open>Properties of the migration notice\<close>

text \<open>
  Claim C4, as the code has it. The unsaved-changes flag is the variable
  \<open>hasUnsavedChanges\<close>, in which the script mirrors the state of the editor. While it is
  true no handler execution posts the run action \<open>twae_run_migration\<close>; with the flag
  false a click on the button posts it. The dismiss action \<open>twae_hide_migration_notice\<close> has no such gate:
  every dismiss click posts it, whatever the flag is.
\<close>

theorem run_action_gated:
  "(hasUnsavedChanges s \<longrightarrow> runPosts (step s ev) = runPosts s)
   \<and> (\<not> hasUnsavedChanges s \<longrightarrow>
        requests (step s RunClick) = requests s @ [\<lparr>action = ''twae_run_migration'', val = None\<rparr>])
   \<and> requests (step s (DismissClick mig_val))
        = requests s @ [\<lparr>action = ''twae_hide_migration_notice'',
                          val = Some (if emptyOrUndefined mig_val then JSString ''twe'' else mig_val)\<rparr>]"
proof -
  have a: "hasUnsavedChanges s \<longrightarrow> runPosts (step s ev) = runPosts s"
    by (cases ev)
      (simp_all add: step_def runPosts_def dismissClick_def changeHandler_def afterSave_def
        runClick_def ajaxSuccess_def ajaxError_def updateMigrationButtonState_def Let_def)
  have b: "\<not> hasUnsavedChanges s \<longrightarrow>
        requests (step s RunClick) = requests s @ [\<lparr>action = ''twae_run_migration'', val = None\<rparr>]"
    by (simp add: step_def runClick_def)
  have c: "requests (step s (DismissClick mig_val))
        = requests s @ [\<lparr>action = ''twae_hide_migration_notice'',
                          val = Some (if emptyOrUndefined mig_val then JSString ''twe'' else mig_val)\<rparr>]"
    by (simp add: step_def dismissClick_def Let_def)
  from a b c show ?thesis by blast
qed

theorem run_action_gated_witness:
  "hasUnsavedChanges (ready (ElementorSaver False)
      (Some \<lparr>disabled = False, opacity = ''1'', cursor = ''pointer'', label = ''Run Migration''\<rparr>))
   \<and> runPosts (step (ready (ElementorSaver False)
      (Some \<lparr>disabled = False, opacity = ''1'', cursor = ''pointer'', label = ''Run Migration''\<rparr>))
      RunClick) = []"
proof -
  let ?s = "ready (ElementorSaver False)
      (Some \<lparr>disabled = False, opacity = ''1'', cursor = ''pointer'', label = ''Run Migration''\<rparr>)"
  have h: "hasUnsavedChanges ?s"
    by (simp add: ready_def checkUnsaved_def updateMigrationButtonState_def)
  have r: "runPosts ?s = []"
    by (simp add: ready_def checkUnsaved_def updateMigrationButtonState_def runPosts_def)
  from run_action_gated [of ?s RunClick] h r show ?thesis by simp
qed

text \<open>
  The editor has unsaved changes when the page is ready, so the flag is true; a click on
  the dismiss control then posts the dismiss action.
\<close>

theorem dismiss_while_unsaved_counterexample:
  "hasUnsavedChanges (ready (ElementorSaver False)
      (Some \<lparr>disabled = False, opacity = ''1'', cursor = ''pointer'', label = ''Run Migration''\<rparr>))
   \<and> requests (step (ready (ElementorSaver False)
      (Some \<lparr>disabled = False, opacity = ''1'', cursor = ''pointer'', label = ''Run Migration''\<rparr>))
      (DismissClick JSUndefined))
     = [\<lparr>action = ''twae_hide_migration_notice'', val = Some (JSString ''twe'')\<rparr>]"
  by (simp add: ready_def checkUnsaved_def updateMigrationButtonState_def step_def
      dismissClick_def emptyOrUndefined_def)

text \<open>
  Claim C5. With the flag true, \<open>updateMigrationButtonState\<close> sets the disabled attribute
  of the button. When the save event of the editor fires, the flag becomes false and the
  disabled attribute is taken off again.
\<close>

theorem button_follows_flag:
  assumes "runButton s = Some b" and "editorBound s"
  shows "(hasUnsavedChanges s \<longrightarrow>
            map_option disabled (runButton (updateMigrationButtonState s)) = Some True)
       \<and> \<not> hasUnsavedChanges (step s AfterSave)
       \<and> map_option disabled (runButton (step s AfterSave)) = Some False"
  using assms
  by (simp add: step_def afterSave_def updateMigrationButtonState_def)

theorem button_follows_flag_witness:
  "map_option disabled (runButton (updateMigrationButtonState (ready (ElementorSaver False)
      (Some \<lparr>disabled = False, opacity = ''1'', cursor = ''pointer'', label = ''Run Migration''\<rparr>))))
     = Some True
   \<and> map_option disabled (runButton (step (ready (ElementorSaver False)
      (Some \<lparr>disabled = False, opacity = ''1'', cursor = ''pointer'', label = ''Run Migration''\<rparr>))
      AfterSave)) = Some False"
proof -
  let ?s = "ready (ElementorSaver False)
      (Some \<lparr>disabled = False, opacity = ''1'', cursor = ''pointer'', label = ''Run Migration''\<rparr>)"
  have h: "hasUnsavedChanges ?s"
    by (simp add: ready_def checkUnsaved_def updateMigrationButtonState_def)
  have e: "editorBound ?s"
    by (simp add: ready_def checkUnsaved_def updateMigrationButtonState_def)
  have b: "runButton ?s
      = Some \<lparr>disabled = True, opacity = ''0.5'', cursor = ''not-allowed'', label = ''Run Migration''\<rparr>"
    by (simp add: ready_def checkUnsaved_def updateMigrationButtonState_def)
  from button_follows_flag [OF b e] h show ?thesis by simp
qed

section \<open>Properties of the color arithmetic\<close>

subsection \<open>Digits\<close>

lemma digitChar_0: "digitChar 0 = CHR ''0''"
  by code_simp

lemma digitChar_1: "digitChar 1 = CHR ''1''"
  by code_simp

lemma digitsOf_small: "n < radix \<Longrightarrow> digitsOf radix n = [digitChar n]"
  by (simp add: digitsOf.simps [of radix n])

lemma digitsOf_snoc:
  assumes "1 \<le> a" and "0 \<le> d" and "d < 16"
  shows "digitsOf 16 (a * 16 + d) = digitsOf 16 a @ [digitChar d]"
proof -
  have "\<not> (a * 16 + d < 16)" using assms by simp
  moreover have "(a * 16 + d) div 16 = a" using assms by simp
  moreover have "(a * 16 + d) mod 16 = d" using assms by simp
  ultimately show ?thesis by (simp add: digitsOf.simps [of 16 "a * 16 + d"])
qed

lemma digitsOf_byte:
  assumes "0 \<le> n" and "n \<le> 255"
  shows "padStart2 (digitsOf 16 n) = byteHex n"
proof (cases "n < 16")
  case True
  then have "n div 16 = 0" "n mod 16 = n" using assms by simp_all
  then show ?thesis using True
    by (simp add: digitsOf_small padStart2_def byteHex_def digitChar_0)
next
  case False
  then have "1 \<le> n div 16" "n div 16 < 16" using assms by simp_all
  moreover have "n = (n div 16) * 16 + n mod 16" by simp
  ultimately have "digitsOf 16 n = digitsOf 16 (n div 16) @ [digitChar (n mod 16)]"
    using digitsOf_snoc [of "n div 16" "n mod 16"] by simp
  then show ?thesis using \<open>n div 16 < 16\<close>
    by (simp add: digitsOf_small padStart2_def byteHex_def)
qed

lemma seven_digits:
  assumes "0 \<le> r" "r \<le> 255" "0 \<le> g" "g \<le> 255" "0 \<le> b" "b \<le> 255"
  shows "intToString 16 (16777216 + r * 65536 + g * 256 + b)
       = CHR ''1'' # byteHex r @ byteHex g @ byteHex b"
proof -
  define r1 r0 g1 g0 b1 b0
    where "r1 = r div 16" and "r0 = r mod 16" and "g1 = g div 16" and "g0 = g mod 16"
      and "b1 = b div 16" and "b0 = b mod 16"
  have rng: "0 \<le> r1" "0 \<le> r0" "r0 < 16" "0 \<le> g1" "0 \<le> g0" "g0 < 16"
    "0 \<le> b1" "0 \<le> b0" "b0 < 16"
    using assms by (simp_all add: r1_def r0_def g1_def g0_def b1_def b0_def)
  have rng1: "r1 < 16" "g1 < 16" "b1 < 16"
    using assms by (simp_all add: r1_def g1_def b1_def)
  have r: "r = r1 * 16 + r0" and g: "g = g1 * 16 + g0" and b: "b = b1 * 16 + b0"
    by (simp_all add: r1_def r0_def g1_def g0_def b1_def b0_def)
  have n: "16777216 + r * 65536 + g * 256 + b
      = (((((1 * 16 + r1) * 16 + r0) * 16 + g1) * 16 + g0) * 16 + b1) * 16 + b0"
    by (simp add: r g b algebra_simps)
  have one: "digitsOf 16 1 = ''1''" by (simp add: digitsOf_small digitChar_1)
  have s1: "digitsOf 16 (1 * 16 + r1) = ''1'' @ [digitChar r1]"
    using digitsOf_snoc [of 1 r1] rng rng1 one by simp
  have s2: "digitsOf 16 ((1 * 16 + r1) * 16 + r0) = ''1'' @ [digitChar r1, digitChar r0]"
    using digitsOf_snoc [of "1 * 16 + r1" r0] rng rng1 s1 by simp
  have s3: "digitsOf 16 (((1 * 16 + r1) * 16 + r0) * 16 + g1)
      = ''1'' @ [digitChar r1, digitChar r0, digitChar g1]"
    using digitsOf_snoc [of "(1 * 16 + r1) * 16 + r0" g1] rng rng1 s2 by simp
  have s4: "digitsOf 16 ((((1 * 16 + r1) * 16 + r0) * 16 + g1) * 16 + g0)
      = ''1'' @ [digitChar r1, digitChar r0, digitChar g1, digitChar g0]"
    using digitsOf_snoc [of "((1 * 16 + r1) * 16 + r0) * 16 + g1" g0] rng rng1 s3 by simp
  have s5: "digitsOf 16 (((((1 * 16 + r1) * 16 + r0) * 16 + g1) * 16 + g0) * 16 + b1)
      = ''1'' @ [digitChar r1, digitChar r0, digitChar g1, digitChar g0, digitChar b1]"
    using digitsOf_snoc [of "(((1 * 16 + r1) * 16 + r0) * 16 + g1) * 16 + g0" b1] rng rng1 s4
    by simp
  have s6: "digitsOf 16 ((((((1 * 16 + r1) * 16 + r0) * 16 + g1) * 16 + g0) * 16 + b1) * 16 + b0)
      = ''1'' @ [digitChar r1, digitChar r0, digitChar g1, digitChar g0, digitChar b1, digitChar b0]"
    using digitsOf_snoc [of "((((1 * 16 + r1) * 16 + r0) * 16 + g1) * 16 + g0) * 16 + b1" b0]
      rng rng1 s5
    by simp
  have "0 \<le> 16777216 + r * 65536 + g * 256 + b" using assms by simp
  then have "intToString 16 (16777216 + r * 65536 + g * 256 + b)
      = digitsOf 16 (16777216 + r * 65536 + g * 256 + b)"
    by (simp add: intToString_def)
  also have "\<dots> = ''1'' @ [digitChar r1, digitChar r0, digitChar g1, digitChar g0, digitChar b1, digitChar b0]"
    by (simp only: n s6)
  finally show ?thesis
    by (simp add: byteHex_def r1_def r0_def g1_def g0_def b1_def b0_def)
qed

lemma clampChannel_range: "0 \<le> clampChannel x amt \<and> clampChannel x amt \<le> 255"
  by (cases amt) (simp_all add: clampChannel_def Let_def)

lemma isLowerHexDigit_digitChar:
  assumes "0 \<le> d" and "d < 16"
  shows "isLowerHexDigit (digitChar d)"
proof (cases "d < 10")
  case True
  then show ?thesis using assms
    by (simp add: isLowerHexDigit_def isDigit_def digitChar_def code_char_of)
next
  case False
  then show ?thesis using assms
    by (simp add: isLowerHexDigit_def isDigit_def digitChar_def code_char_of)
qed

lemma byteHex_lower:
  assumes "0 \<le> n" and "n \<le> 255"
  shows "list_all isLowerHexDigit (byteHex n)"
proof -
  have "0 \<le> n div 16" "n div 16 < 16" "0 \<le> n mod 16" "n mod 16 < 16"
    using assms by simp_all
  then show ?thesis by (simp add: byteHex_def isLowerHexDigit_digitChar)
qed

subsection \<open>Parsing what was printed\<close>

lemma char_of_code: "char_of (code c) = c"
  by (simp add: code_def)

lemma isHexDigit_cases:
  "isHexDigit c \<longleftrightarrow>
     isDigit c \<or> (97 \<le> code c \<and> code c \<le> 102) \<or> (65 \<le> code c \<and> code c \<le> 70)"
  by (auto simp: isHexDigit_def digitValue_def isDigit_def)

lemma hexDigit_plain:
  assumes "isHexDigit c"
  shows "\<not> isWhiteSpace c" and "c \<noteq> CHR ''-''" and "c \<noteq> CHR ''+''"
    and "c \<noteq> CHR ''x''" and "c \<noteq> CHR ''X''" and "c \<noteq> CHR ''#''"
  using assms
  by (auto simp: isHexDigit_cases isDigit_def isWhiteSpace_def code_def)

lemma digitValue_range: "isHexDigit c \<Longrightarrow> 0 \<le> digitValue c \<and> digitValue c < 16"
  by (auto simp: isHexDigit_cases digitValue_def isDigit_def)

lemma parseInt_plain:
  assumes "dropWhile isWhiteSpace s = s"
    and "\<not> startsWith s ''-''" and "\<not> startsWith s ''+''"
    and "\<not> startsWith s ''0x''" and "\<not> startsWith s ''0X''"
    and "takeWhile (\<lambda>c. digitValue c < r) s = s" and "s \<noteq> []"
    and "r = (if radix = 0 then 10 else radix)" and "2 \<le> r" and "r \<le> 36"
  shows "parseInt s radix = Some (foldl (\<lambda>a c. a * r + digitValue c) 0 s)"
proof -
  have "parseInt s radix =
     (let z = takeWhile (\<lambda>c. digitValue c < r) s
      in if r < 2 \<or> 36 < r then None
         else if z = [] then None
         else Some (foldl (\<lambda>a c. a * r + digitValue c) 0 z))"
    using assms(1-5,8) by (simp add: parseInt_def Let_def)
  then show ?thesis using assms(6,7,9,10) by (simp add: Let_def)
qed

lemma not_prefix_0x:
  assumes "list_all P s" and "\<not> P x"
  shows "\<not> startsWith s [z, x]"
proof (cases s)
  case Nil
  then show ?thesis by (simp add: startsWith_def)
next
  case (Cons a t)
  show ?thesis
  proof (cases t)
    case Nil
    with Cons show ?thesis by (simp add: startsWith_def)
  next
    case (Cons b u)
    with \<open>s = a # t\<close> assms have "b \<noteq> x" by auto
    with Cons \<open>s = a # t\<close> show ?thesis by (simp add: startsWith_def)
  qed
qed

lemma parseInt_hex:
  assumes "list_all isHexDigit (c # cs)"
  shows "parseInt (c # cs) 16 = Some (foldl (\<lambda>a d. a * 16 + digitValue d) 0 (c # cs))"
proof -
  have c: "isHexDigit c" using assms by simp
  have w: "dropWhile isWhiteSpace (c # cs) = c # cs" using hexDigit_plain(1) [OF c] by simp
  have sg: "\<not> startsWith (c # cs) ''-''" "\<not> startsWith (c # cs) ''+''"
    using hexDigit_plain(2,3) [OF c] by (simp_all add: startsWith_def)
  have nx: "\<not> isHexDigit (CHR ''x'')" "\<not> isHexDigit (CHR ''X'')"
    using hexDigit_plain(4,5) by blast+
  have px: "\<not> startsWith (c # cs) ''0x''" "\<not> startsWith (c # cs) ''0X''"
    using not_prefix_0x [OF assms nx(1)] not_prefix_0x [OF assms nx(2)] by simp_all
  have "\<forall>x\<in>set (c # cs). digitValue x < 16"
    using assms by (simp add: list_all_iff isHexDigit_def)
  then have tw: "takeWhile (\<lambda>x. digitValue x < 16) (c # cs) = c # cs"
    by (simp only: takeWhile_eq_all_conv)
  show ?thesis
    by (rule parseInt_plain [OF w sg px tw]) simp_all
qed

lemma isDigit_plain:
  assumes "isDigit c"
  shows "\<not> isWhiteSpace c" and "c \<noteq> CHR ''-''" and "c \<noteq> CHR ''+''"
    and "digitValue c = code c - 48" and "digitValue c < 10"
  using assms
  by (auto simp: isDigit_def isWhiteSpace_def digitValue_def code_def)

lemma digitValue_digitChar: "0 \<le> d \<Longrightarrow> d < 10 \<Longrightarrow> digitValue (digitChar d) = d"
  using isDigit_digitChar [of d]
  by (simp add: isDigit_plain(4) digitChar_def code_char_of)

lemma digitChar_digitValue:
  assumes "isLowerHexDigit c"
  shows "digitChar (digitValue c) = c"
proof (cases "isDigit c")
  case True
  then have "digitValue c = code c - 48" "code c - 48 < 10"
    using isDigit_plain(4,5) [OF True] by simp_all
  then show ?thesis by (simp add: digitChar_def char_of_code)
next
  case False
  with assms have r: "97 \<le> code c" "code c \<le> 102" by (simp_all add: isLowerHexDigit_def)
  with False have "digitValue c = code c - 87" by (simp add: digitValue_def)
  with r show ?thesis by (simp add: digitChar_def char_of_code)
qed

lemma lower_is_hex: "isLowerHexDigit c \<Longrightarrow> isHexDigit c"
  by (auto simp: isLowerHexDigit_def isHexDigit_cases)

lemma digitsOf_nonempty: "digitsOf radix n \<noteq> []"
  by (simp add: digitsOf.simps [of radix n])

lemma digitsOf_decimal_value:
  "0 \<le> n \<Longrightarrow> foldl (\<lambda>a c. a * 10 + digitValue c) 0 (digitsOf 10 n) = n"
proof (induction "10::int" n rule: digitsOf.induct)
  case (1 n)
  show ?case
  proof (cases "n < 10")
    case True
    with "1.prems" show ?thesis by (simp add: digitsOf_small digitValue_digitChar)
  next
    case False
    then have ih: "foldl (\<lambda>a c. a * 10 + digitValue c) 0 (digitsOf 10 (n div 10)) = n div 10"
      using 1 by simp
    have "digitValue (digitChar (n mod 10)) = n mod 10"
      by (rule digitValue_digitChar) simp_all
    with ih False show ?thesis by (simp add: digitsOf.simps [of 10 n])
  qed
qed

lemma parseInt_decimal:
  assumes "0 \<le> n"
  shows "parseInt (digitsOf 10 n) 0 = Some n"
proof -
  have all: "list_all isDigit (digitsOf 10 n)" using assms by (rule digitsOf_decimal)
  obtain c cs where s: "digitsOf 10 n = c # cs"
    using digitsOf_nonempty [of 10 n] by (cases "digitsOf 10 n") auto
  have c: "isDigit c" using all s by simp
  have w: "dropWhile isWhiteSpace (digitsOf 10 n) = digitsOf 10 n"
    using isDigit_plain(1) [OF c] s by simp
  have sg: "\<not> startsWith (digitsOf 10 n) ''-''" "\<not> startsWith (digitsOf 10 n) ''+''"
    using isDigit_plain(2,3) [OF c] s by (simp_all add: startsWith_def)
  have nx: "\<not> isDigit (CHR ''x'')" "\<not> isDigit (CHR ''X'')"
    by (simp_all add: isDigit_def code_def)
  have px: "\<not> startsWith (digitsOf 10 n) ''0x''" "\<not> startsWith (digitsOf 10 n) ''0X''"
    using not_prefix_0x [OF all nx(1)] not_prefix_0x [OF all nx(2)] by simp_all
  have "\<forall>x\<in>set (digitsOf 10 n). digitValue x < 10"
    using all isDigit_plain(5) by (auto simp: list_all_iff)
  then have tw: "takeWhile (\<lambda>x. digitValue x < 10) (digitsOf 10 n) = digitsOf 10 n"
    by (simp only: takeWhile_eq_all_conv)
  have "parseInt (digitsOf 10 n) 0
      = Some (foldl (\<lambda>a c. a * 10 + digitValue c) 0 (digitsOf 10 n))"
    by (rule parseInt_plain [OF w sg px tw]) (simp_all add: digitsOf_nonempty)
  then show ?thesis using digitsOf_decimal_value [OF assms] by simp
qed

lemma digitRuns_digits:
  "list_all isDigit ds \<Longrightarrow> digitRuns run (ds @ rest) = digitRuns (run @ ds) rest"
  by (induction ds arbitrary: run) simp_all

lemma digitRuns_rgb:
  assumes "list_all isDigit x" "list_all isDigit y" "list_all isDigit z"
    and "x \<noteq> []" "y \<noteq> []" "z \<noteq> []"
  shows "digitRuns [] (''rgb('' @ (x @ '', '' @ y @ '', '' @ z) @ '')'') = [x, y, z]"
proof -
  have nd: "\<not> isDigit (CHR ''r'')" "\<not> isDigit (CHR ''g'')" "\<not> isDigit (CHR ''b'')"
    "\<not> isDigit (CHR ''('')" "\<not> isDigit (CHR '','')" "\<not> isDigit (CHR '' '')"
    "\<not> isDigit (CHR '')'')"
    by (simp_all add: isDigit_def code_def)
  have a: "digitRuns [] (''rgb('' @ (x @ '', '' @ y @ '', '' @ z) @ '')'')
      = digitRuns [] (x @ ('', '' @ y @ '', '' @ z @ '')''))"
    using nd by simp
  have b: "digitRuns [] (x @ ('', '' @ y @ '', '' @ z @ '')''))
      = digitRuns x ('', '' @ y @ '', '' @ z @ '')'')"
    using digitRuns_digits [OF assms(1), of "[]"] by simp
  have c: "digitRuns x ('', '' @ y @ '', '' @ z @ '')'') = x # digitRuns [] (y @ ('', '' @ z @ '')''))"
    using nd assms(4) by simp
  have d: "digitRuns [] (y @ ('', '' @ z @ '')'')) = digitRuns y ('', '' @ z @ '')'')"
    using digitRuns_digits [OF assms(2), of "[]"] by simp
  have e: "digitRuns y ('', '' @ z @ '')'') = y # digitRuns [] (z @ '')'')"
    using nd assms(5) by simp
  have f: "digitRuns [] (z @ '')'') = digitRuns z '')''"
    using digitRuns_digits [OF assms(3), of "[]"] by simp
  have g: "digitRuns z '')'' = [z]"
    using nd assms(6) by simp
  show ?thesis by (simp only: a b c d e f g)
qed

lemma split_low_byte:
  assumes "0 \<le> z" and "(z::int) < 256"
  shows "(x * 256 + z) div 256 = x" and "(x * 256 + z) mod 256 = z"
proof -
  show "(x * 256 + z) div 256 = x" using assms by simp
  have "(x * 256 + z) mod 256 = z mod 256" by (rule mod_mult_self3)
  then show "(x * 256 + z) mod 256 = z" using assms by simp
qed

lemma six_digit_channels:
  assumes "0 \<le> a" "a < 16" "0 \<le> b" "b < 16" "0 \<le> c" "c < 16"
    "0 \<le> d" "d < 16" "0 \<le> e" "e < 16" "0 \<le> f" "(f::int) < 16"
  defines "num \<equiv> ((((a * 16 + b) * 16 + c) * 16 + d) * 16 + e) * 16 + f"
  shows "toInt32 (Some num) = num"
    and "num div 2 ^ 16 = 16 * a + b"
    and "(num div 2 ^ 8) mod 256 = 16 * c + d"
    and "num mod 256 = 16 * e + f"
proof -
  define R G B where "R = 16 * a + b" and "G = 16 * c + d" and "B = 16 * e + f"
  have rng: "0 \<le> R" "R < 256" "0 \<le> G" "G < 256" "0 \<le> B" "B < 256"
    using assms(1-12) by (simp_all add: R_def G_def B_def)
  have n: "num = (R * 256 + G) * 256 + B"
    by (simp add: num_def R_def G_def B_def algebra_simps)
  have d8: "num div 256 = R * 256 + G"
    unfolding n by (rule split_low_byte(1) [OF rng(5,6)])
  have m8: "num mod 256 = B"
    unfolding n by (rule split_low_byte(2) [OF rng(5,6)])
  have d16: "(R * 256 + G) div 256 = R"
    by (rule split_low_byte(1) [OF rng(3,4)])
  have m16: "(R * 256 + G) mod 256 = G"
    by (rule split_low_byte(2) [OF rng(3,4)])
  have "num div 2 ^ 16 = (num div 256) div 256"
    by (simp add: div_mult2_eq [symmetric])
  then show "num div 2 ^ 16 = 16 * a + b" using d8 d16 by (simp add: R_def)
  show "(num div 2 ^ 8) mod 256 = 16 * c + d" using d8 m16 by (simp add: G_def)
  show "num mod 256 = 16 * e + f" using m8 by (simp add: B_def)
  have "0 \<le> num" "num < 2 ^ 24" unfolding n using rng by simp_all
  then show "toInt32 (Some num) = num" by (simp add: toInt32_def Let_def)
qed

subsection \<open>Lighten and darken\<close>

lemma shade_digits:
  assumes "list_all isHexDigit [r1, r0, g1, g0, b1, b0]"
  defines "num \<equiv> toInt32 (parseInt (remove1 (CHR ''#'') (CHR ''#'' # [r1, r0, g1, g0, b1, b0])) 16)"
  shows "num div 2 ^ 16 = 16 * digitValue r1 + digitValue r0"
    and "(num div 2 ^ 8) mod 256 = 16 * digitValue g1 + digitValue g0"
    and "num mod 256 = 16 * digitValue b1 + digitValue b0"
proof -
  define a b c d e f where "a = digitValue r1" and "b = digitValue r0" and "c = digitValue g1"
    and "d = digitValue g0" and "e = digitValue b1" and "f = digitValue b0"
  have rng: "0 \<le> a" "a < 16" "0 \<le> b" "b < 16" "0 \<le> c" "c < 16"
    "0 \<le> d" "d < 16" "0 \<le> e" "e < 16" "0 \<le> f" "f < 16"
    using assms(1) digitValue_range by (simp_all add: a_def b_def c_def d_def e_def f_def)
  have "parseInt [r1, r0, g1, g0, b1, b0] 16
      = Some (foldl (\<lambda>a d. a * 16 + digitValue d) 0 [r1, r0, g1, g0, b1, b0])"
    using assms(1) by (rule parseInt_hex)
  then have p: "parseInt [r1, r0, g1, g0, b1, b0] 16
      = Some (((((a * 16 + b) * 16 + c) * 16 + d) * 16 + e) * 16 + f)"
    by (simp add: a_def b_def c_def d_def e_def f_def)
  have n: "num = ((((a * 16 + b) * 16 + c) * 16 + d) * 16 + e) * 16 + f"
    unfolding num_def using p six_digit_channels(1) [OF rng] by simp
  show "num div 2 ^ 16 = 16 * digitValue r1 + digitValue r0"
    unfolding n using six_digit_channels(2) [OF rng] by (simp only: a_def b_def)
  show "(num div 2 ^ 8) mod 256 = 16 * digitValue g1 + digitValue g0"
    unfolding n using six_digit_channels(3) [OF rng] by (simp only: c_def d_def)
  show "num mod 256 = 16 * digitValue b1 + digitValue b0"
    unfolding n using six_digit_channels(4) [OF rng] by (simp only: e_def f_def)
qed

lemma shade_string:
  "CHR ''#'' # drop 1 (intToString 16
      (16777216 + clampChannel r amt * 65536 + clampChannel g amt * 256 + clampChannel b amt))
   = CHR ''#'' # byteHex (clampChannel r amt) @ byteHex (clampChannel g amt)
       @ byteHex (clampChannel b amt)"
  using seven_digits [of "clampChannel r amt" "clampChannel g amt" "clampChannel b amt"]
    clampChannel_range [of r amt] clampChannel_range [of g amt] clampChannel_range [of b amt]
  by simp

text \<open>
  Claim C3. For a color \<open>#rrggbb\<close> of six hex digits and any percentage, \<open>lightenColor\<close>
  and \<open>darkenColor\<close> return \<open>#\<close> and six lower-case hex digits: each channel of the
  input plus or minus \<open>Math.round(2.55 * percent)\<close>, clamped to the range from 0 to 255
  and written as two digits.
\<close>

theorem lighten_darken_in_range:
  assumes "list_all isHexDigit [r1, r0, g1, g0, b1, b0]"
  shows "\<exists>R G B R' G' B'.
      lightenColor (CHR ''#'' # [r1, r0, g1, g0, b1, b0]) percent
        = CHR ''#'' # byteHex R @ byteHex G @ byteHex B
    \<and> darkenColor (CHR ''#'' # [r1, r0, g1, g0, b1, b0]) percent
        = CHR ''#'' # byteHex R' @ byteHex G' @ byteHex B'
    \<and> R = clampChannel (16 * digitValue r1 + digitValue r0) (mathRound (multiply twoPointFiveFive percent))
    \<and> G = clampChannel (16 * digitValue g1 + digitValue g0) (mathRound (multiply twoPointFiveFive percent))
    \<and> B = clampChannel (16 * digitValue b1 + digitValue b0) (mathRound (multiply twoPointFiveFive percent))
    \<and> R' = clampChannel (16 * digitValue r1 + digitValue r0)
           (negate (mathRound (multiply twoPointFiveFive percent)))
    \<and> G' = clampChannel (16 * digitValue g1 + digitValue g0)
           (negate (mathRound (multiply twoPointFiveFive percent)))
    \<and> B' = clampChannel (16 * digitValue b1 + digitValue b0)
           (negate (mathRound (multiply twoPointFiveFive percent)))
    \<and> 0 \<le> R \<and> R \<le> 255 \<and> 0 \<le> G \<and> G \<le> 255 \<and> 0 \<le> B \<and> B \<le> 255
    \<and> 0 \<le> R' \<and> R' \<le> 255 \<and> 0 \<le> G' \<and> G' \<le> 255 \<and> 0 \<le> B' \<and> B' \<le> 255
    \<and> list_all isLowerHexDigit (byteHex R @ byteHex G @ byteHex B)
    \<and> list_all isLowerHexDigit (byteHex R' @ byteHex G' @ byteHex B')"
proof -
  note ch = shade_digits [OF assms]
  have l: "lightenColor (CHR ''#'' # [r1, r0, g1, g0, b1, b0]) percent
      = CHR ''#'' # byteHex (clampChannel (16 * digitValue r1 + digitValue r0)
                      (mathRound (multiply twoPointFiveFive percent)))
          @ byteHex (clampChannel (16 * digitValue g1 + digitValue g0)
                      (mathRound (multiply twoPointFiveFive percent)))
          @ byteHex (clampChannel (16 * digitValue b1 + digitValue b0)
                      (mathRound (multiply twoPointFiveFive percent)))"
    unfolding lightenColor_def Let_def ch using shade_string by simp
  have d: "darkenColor (CHR ''#'' # [r1, r0, g1, g0, b1, b0]) percent
      = CHR ''#'' # byteHex (clampChannel (16 * digitValue r1 + digitValue r0)
                      (negate (mathRound (multiply twoPointFiveFive percent))))
          @ byteHex (clampChannel (16 * digitValue g1 + digitValue g0)
                      (negate (mathRound (multiply twoPointFiveFive percent))))
          @ byteHex (clampChannel (16 * digitValue b1 + digitValue b0)
                      (negate (mathRound (multiply twoPointFiveFive percent))))"
    unfolding darkenColor_def Let_def ch using shade_string by simp
  show ?thesis
    using l d clampChannel_range byteHex_lower by (simp add: clampChannel_range byteHex_lower)
qed

theorem lighten_darken_in_range_witness:
  "lightenColor ''#655997'' (Double 20 0) = ''#988cca''
   \<and> darkenColor ''#655997'' (Double 20 0) = ''#322664''
   \<and> length (lightenColor ''#655997'' (Double 20 0)) = 7
   \<and> length (darkenColor ''#655997'' (Double 20 0)) = 7"
proof -
  have h: "list_all isHexDigit ''655997''" by code_simp
  from lighten_darken_in_range [OF h, of "Double 20 0"]
  have "length (lightenColor ''#655997'' (Double 20 0)) = 7
      \<and> length (darkenColor ''#655997'' (Double 20 0)) = 7"
    by (auto simp: byteHex_def)
  moreover have "lightenColor ''#655997'' (Double 20 0) = ''#988cca''" by code_simp
  moreover have "darkenColor ''#655997'' (Double 20 0) = ''#322664''" by code_simp
  ultimately show ?thesis by simp
qed

subsection \<open>Hex to RGB and back\<close>

lemma parseInt_pair:
  assumes "isHexDigit a" and "isHexDigit b"
  shows "parseInt [a, b] 16 = Some (16 * digitValue a + digitValue b)"
  using parseInt_hex [of a "[b]"] assms by simp

lemma hexPart_of_decimal:
  assumes "isLowerHexDigit a" and "isLowerHexDigit b"
  shows "padStart2 (numberToString 16 (parseInt (digitsOf 10 (16 * digitValue a + digitValue b)) 0))
       = [a, b]"
proof -
  have ra: "0 \<le> digitValue a" "digitValue a < 16" and rb: "0 \<le> digitValue b" "digitValue b < 16"
    using assms digitValue_range lower_is_hex by simp_all
  have n: "0 \<le> 16 * digitValue a + digitValue b" "16 * digitValue a + digitValue b \<le> 255"
    using ra rb by simp_all
  have dv: "(16 * digitValue a + digitValue b) div 16 = digitValue a"
    "(16 * digitValue a + digitValue b) mod 16 = digitValue b"
    using ra rb by simp_all
  have "padStart2 (numberToString 16 (parseInt (digitsOf 10 (16 * digitValue a + digitValue b)) 0))
      = padStart2 (digitsOf 16 (16 * digitValue a + digitValue b))"
    using n(1) by (simp add: parseInt_decimal numberToString_def intToString_def)
  also have "\<dots> = byteHex (16 * digitValue a + digitValue b)"
    using n by (rule digitsOf_byte)
  also have "\<dots> = [a, b]"
    unfolding byteHex_def dv using assms by (simp add: digitChar_digitValue)
  finally show ?thesis .
qed

text \<open>
  Claim C10. For a color \<open>h\<close> of the form \<open>#rrggbb\<close> with lower-case hex digits,
  \<open>rgbToHex('rgb(' + hexToRgb(h) + ')')\<close> is \<open>h\<close> again.
\<close>

theorem hex_rgb_round_trip:
  assumes "length h = 6" and "list_all isLowerHexDigit h"
  shows "rgbToHex (''rgb('' @ hexToRgb (CHR ''#'' # h) @ '')'') = CHR ''#'' # h"
proof -
  from assms(1) obtain a b c d e f where h: "h = [a, b, c, d, e, f]"
    by (auto simp: length_Suc_conv eval_nat_numeral)
  have low: "isLowerHexDigit a" "isLowerHexDigit b" "isLowerHexDigit c"
    "isLowerHexDigit d" "isLowerHexDigit e" "isLowerHexDigit f"
    using assms(2) h by simp_all
  note hex = low [THEN lower_is_hex]
  define R G B where "R = 16 * digitValue a + digitValue b"
    and "G = 16 * digitValue c + digitValue d" and "B = 16 * digitValue e + digitValue f"
  have nn: "0 \<le> R" "0 \<le> G" "0 \<le> B"
    using hex digitValue_range by (simp_all add: R_def G_def B_def)
  have rgb: "hexToRgb (CHR ''#'' # h) = digitsOf 10 R @ '', '' @ digitsOf 10 G @ '', '' @ digitsOf 10 B"
    using nn parseInt_pair [OF hex(1,2)] parseInt_pair [OF hex(3,4)] parseInt_pair [OF hex(5,6)]
    by (simp add: hexToRgb_def h substring_def Let_def numberToString_def intToString_def
        R_def G_def B_def)
  have runs: "digitRuns [] (''rgb('' @ (digitsOf 10 R @ '', '' @ digitsOf 10 G @ '', '' @ digitsOf 10 B) @ '')'')
      = [digitsOf 10 R, digitsOf 10 G, digitsOf 10 B]"
    using nn by (intro digitRuns_rgb digitsOf_decimal digitsOf_nonempty)
  have ns: "\<not> startsWith (''rgb('' @ hexToRgb (CHR ''#'' # h) @ '')'') ''#''"
    by (simp add: startsWith_def)
  have "rgbToHex (''rgb('' @ hexToRgb (CHR ''#'' # h) @ '')'')
      = ''#'' @ padStart2 (numberToString 16 (parseInt (digitsOf 10 R) 0))
            @ padStart2 (numberToString 16 (parseInt (digitsOf 10 G) 0))
            @ padStart2 (numberToString 16 (parseInt (digitsOf 10 B) 0))"
    unfolding rgbToHex_def Let_def rgb runs using ns rgb by simp
  also have "\<dots> = ''#'' @ [a, b] @ [c, d] @ [e, f]"
    unfolding R_def G_def B_def
    by (simp only: hexPart_of_decimal [OF low(1,2)] hexPart_of_decimal [OF low(3,4)]
        hexPart_of_decimal [OF low(5,6)])
  finally show ?thesis by (simp add: h)
qed

theorem hex_rgb_round_trip_witness:
  "hexToRgb ''#1a2b3c'' = ''26, 43, 60'' \<and> rgbToHex ''rgb(26, 43, 60)'' = ''#1a2b3c''"
proof -
  have l: "length ''1a2b3c'' = 6" by simp
  have a: "list_all isLowerHexDigit ''1a2b3c''" by code_simp
  have r: "hexToRgb ''#1a2b3c'' = ''26, 43, 60''" by code_simp
  from hex_rgb_round_trip [OF l a] r show ?thesis by simp
qed

end
